theory Spec2Isabelle
  imports Main "HOL-Library.AList" "HOL-Library.Sublist"
begin


section \<open>Values, exceptions and callables\<close>

text \<open>
  The scenario manager (\<^verbatim>\<open>tempest/lis/manager.py\<close>) is dynamically typed Python. Its values
  are embedded as a small universe: \<^verbatim>\<open>None\<close>, booleans, integers, strings, lists,
  dictionaries (association lists with distinct keys, in insertion order), client
  objects (named), resource objects built from a response dictionary, and callables.
  A callable is a module function or client method (by qualified name), a bound method
  of an object, or the manager's own \<^verbatim>\<open>delete_wrapper\<close>.
\<close>

datatype pyval =
    VNone
  | VBool bool
  | VInt int
  | VStr string
  | VList "pyval list"
  | VDict "(string \<times> pyval) list"
  | VClient string
  | VObj string "(string \<times> pyval) list"
  | VCallable callable
and callable =
    Func string
  | Method pyval string
  | DeleteWrapper

type_synonym kwargs = "(string \<times> pyval) list"

text \<open>
  Exception kinds. \<^verbatim>\<open>lib_exc.NotFound\<close> and \<^verbatim>\<open>lib_exc.Conflict\<close> carry the error string
  of the response; \<^verbatim>\<open>OtherError\<close> stands for every class the manager never catches.
\<close>

datatype exn =
    NotFound string
  | Conflict string
  | TimeoutException string
  | AssertionError string
  | TypeError string
  | KeyError string
  | AttributeError string
  | OtherError string string

text \<open>Python truthiness, as tested by \<^verbatim>\<open>if waiter_client:\<close> and \<^verbatim>\<open>if bdm:\<close>.\<close>

fun truthy :: "pyval \<Rightarrow> bool" where
  "truthy VNone = False"
| "truthy (VBool b) = b"
| "truthy (VInt i) = (i \<noteq> 0)"
| "truthy (VStr s) = (s \<noteq> [])"
| "truthy (VList xs) = (xs \<noteq> [])"
| "truthy (VDict d) = (d \<noteq> [])"
| "truthy (VClient c) = True"
| "truthy (VObj c d) = True"
| "truthy (VCallable c) = True"

text \<open>\<^verbatim>\<open>d[k]\<close> on a dictionary: a missing key raises \<^verbatim>\<open>KeyError\<close>.\<close>

fun subscript :: "pyval \<Rightarrow> string \<Rightarrow> exn + pyval" where
  "subscript (VDict d) k = (case map_of d k of None \<Rightarrow> Inl (KeyError k) | Some v \<Rightarrow> Inr v)"
| "subscript v k = Inl (TypeError ''object is not subscriptable'')"

text \<open>\<^verbatim>\<open>o.k\<close> on a resource object (an attribute dictionary): a missing attribute raises.\<close>

fun getattr :: "pyval \<Rightarrow> string \<Rightarrow> exn + pyval" where
  "getattr (VObj c d) k = (case map_of d k of None \<Rightarrow> Inl (AttributeError k) | Some v \<Rightarrow> Inr v)"
| "getattr v k = Inl (AttributeError k)"

text \<open>
  \<^verbatim>\<open>Cls(client=c, **d)\<close>: a resource object of class \<^verbatim>\<open>Cls\<close> from the client
  references and a response dictionary (a key given twice is a \<^verbatim>\<open>TypeError\<close>).
\<close>

fun construct :: "string \<Rightarrow> kwargs \<Rightarrow> pyval \<Rightarrow> exn + pyval" where
  "construct cls clients (VDict d) =
     (if list_ex (\<lambda>k. k \<in> set (map fst d)) (map fst clients)
      then Inl (TypeError ''got multiple values for keyword argument'')
      else Inr (VObj cls (clients @ d)))"
| "construct cls clients v = Inl (TypeError ''argument after ** must be a mapping'')"

text \<open>\<^verbatim>\<open>d.get(k, default)\<close>, \<^verbatim>\<open>k in v\<close>, \<^verbatim>\<open>v[0]\<close> and \<^verbatim>\<open>len(v)\<close>.\<close>

fun dict_get :: "pyval \<Rightarrow> string \<Rightarrow> pyval \<Rightarrow> exn + pyval" where
  "dict_get (VDict d) k dflt = (case map_of d k of None \<Rightarrow> Inr dflt | Some v \<Rightarrow> Inr v)"
| "dict_get v k dflt = Inl (AttributeError ''get'')"

fun py_in :: "string \<Rightarrow> pyval \<Rightarrow> exn + bool" where
  "py_in k (VDict d) = Inr (k \<in> set (map fst d))"
| "py_in k (VList xs) = Inr (VStr k \<in> set xs)"
| "py_in k (VStr s) = Inr (sublist k s)"
| "py_in k v = Inl (TypeError ''argument is not iterable'')"

fun first_item :: "pyval \<Rightarrow> exn + pyval" where
  "first_item (VList (x # xs)) = Inr x"
| "first_item (VList []) = Inl (OtherError ''IndexError'' ''list index out of range'')"
| "first_item v = Inl (TypeError ''object is not subscriptable'')"

fun py_len :: "pyval \<Rightarrow> exn + nat" where
  "py_len (VList xs) = Inr (length xs)"
| "py_len (VDict d) = Inr (length d)"
| "py_len (VStr s) = Inr (length s)"
| "py_len v = Inl (TypeError ''object has no len()'')"

definition bind_sum :: "exn + 'a \<Rightarrow> ('a \<Rightarrow> exn + 'b) \<Rightarrow> exn + 'b" where
  "bind_sum r f = (case r of Inl e \<Rightarrow> Inl e | Inr x \<Rightarrow> f x)"

section \<open>The test case: cleanup stack, wait queue, backend, trace\<close>

text \<open>
  A cleanup entry is what \<^verbatim>\<open>addCleanup(function, *args, **kwargs)\<close> stores; the entry
  \<^verbatim>\<open>WaitForCleanups\<close> is the bound method \<^verbatim>\<open>self._wait_for_cleanups\<close>, which only
  \<^verbatim>\<open>setUp\<close> registers.
\<close>

datatype cleanup_entry =
    Cleanup callable "pyval list" kwargs
  | WaitForCleanups

text \<open>
  What teardown is observed to do: a cleanup entry is fired by the deferred-action
  facility, a waiter is called by \<^verbatim>\<open>_wait_for_cleanups\<close>, an external operation is
  called (with what it answered).
\<close>

datatype event =
    CleanupFired cleanup_entry
  | WaiterCalled pyval kwargs
  | ExtCalled string "pyval list" kwargs "exn + pyval"

record 'w test =
  cleanups :: "cleanup_entry list"
  cleanup_waits :: "kwargs list"
  world :: 'w
  trace :: "event list"

text \<open>
  The remote backend and every other collaborator outside the manager: an operation,
  by qualified name, answers from the backend state and may change it.
\<close>

type_synonym 'w extern = "string \<Rightarrow> pyval list \<Rightarrow> kwargs \<Rightarrow> 'w \<Rightarrow> (exn + pyval) \<times> 'w"

type_synonym ('w, 'a) action = "'w test \<Rightarrow> (exn + 'a) \<times> 'w test"

definition ret :: "'a \<Rightarrow> ('w, 'a) action" where
  "ret x st = (Inr x, st)"

definition raise :: "exn \<Rightarrow> ('w, 'a) action" where
  "raise e st = (Inl e, st)"

definition lift :: "exn + 'a \<Rightarrow> ('w, 'a) action" where
  "lift r st = (r, st)"

definition bind_res :: "('w, 'a) action \<Rightarrow> ('a \<Rightarrow> ('w, 'b) action) \<Rightarrow> ('w, 'b) action" where
  "bind_res m f st = (case m st of (Inl e, st') \<Rightarrow> (Inl e, st') | (Inr x, st') \<Rightarrow> f x st')"

definition client_call :: "'w extern \<Rightarrow> string \<Rightarrow> pyval list \<Rightarrow> kwargs \<Rightarrow> ('w, pyval) action" where
  "client_call ext name args kw st =
     (case ext name args kw (world st) of
        (r, w') \<Rightarrow> (r, st\<lparr>world := w', trace := trace st @ [ExtCalled name args kw r]\<rparr>))"

definition assertEqual :: "pyval \<Rightarrow> pyval \<Rightarrow> string \<Rightarrow> exn + unit" where
  "assertEqual a b msg = (if a = b then Inr () else Inl (AssertionError msg))"

definition assertTrue :: "bool \<Rightarrow> string \<Rightarrow> exn + unit" where
  "assertTrue b msg = (if b then Inr () else Inl (AssertionError msg))"

definition assertIsNotNone :: "pyval \<Rightarrow> string \<Rightarrow> exn + unit" where
  "assertIsNotNone v msg = (if v \<noteq> VNone then Inr () else Inl (AssertionError msg))"

text \<open>\<^verbatim>\<open>obj.m(*args, **kw)\<close>: the operation \<^verbatim>\<open>m\<close> receives the object first.\<close>

definition method_call :: "'w extern \<Rightarrow> pyval \<Rightarrow> string \<Rightarrow> pyval list \<Rightarrow> kwargs \<Rightarrow> ('w, pyval) action" where
  "method_call ext obj m args kw = client_call ext m (obj # args) kw"

subsection \<open>The deferred-action facility of the test framework\<close>

text \<open>
  Modelled from the spec: \<^verbatim>\<open>addCleanup\<close> and the draining of the cleanup stack belong to
  the test framework's base class, which is not in the source tree. Section 4.2:
  registration appends an entry to an ordered sequence, and draining runs all entries
  in LIFO order, recording a failure and continuing with the remaining entries.
\<close>

definition addCleanup :: "cleanup_entry \<Rightarrow> 'w test \<Rightarrow> 'w test" where
  "addCleanup entry st = st\<lparr>cleanups := cleanups st @ [entry]\<rparr>"

definition addCleanupA :: "cleanup_entry \<Rightarrow> ('w, unit) action" where
  "addCleanupA entry st = (Inr (), addCleanup entry st)"

subsection \<open>Calling a callable; \<^verbatim>\<open>delete_wrapper\<close>\<close>

definition outcome :: "(exn + 'a) \<times> 's \<Rightarrow> exn option \<times> 's" where
  "outcome r = (case r of (Inl e, s) \<Rightarrow> (Some e, s) | (Inr v, s) \<Rightarrow> (None, s))"

text \<open>
  \<^verbatim>\<open>delete_wrapper(delete_thing, *args, **kwargs)\<close> runs \<^verbatim>\<open>delete_thing(*args, **kwargs)\<close>
  inside \<^verbatim>\<open>try\<close> / \<^verbatim>\<open>except lib_exc.NotFound: pass\<close>. The functions return the exception
  that escapes, if any. Python binds \<^verbatim>\<open>delete_thing\<close> to the first positional argument
  or, when there is none, to the keyword of that name; it raises \<^verbatim>\<open>TypeError\<close> when the
  parameter is given twice or not at all.
\<close>

function (sequential)
  invoke :: "'w extern \<Rightarrow> callable \<Rightarrow> pyval list \<Rightarrow> kwargs \<Rightarrow> 'w test \<Rightarrow> exn option \<times> 'w test"
and call_value :: "'w extern \<Rightarrow> pyval \<Rightarrow> pyval list \<Rightarrow> kwargs \<Rightarrow> 'w test \<Rightarrow> exn option \<times> 'w test"
and delete_wrapper :: "'w extern \<Rightarrow> pyval \<Rightarrow> pyval list \<Rightarrow> kwargs \<Rightarrow> 'w test \<Rightarrow> exn option \<times> 'w test"
where
  "invoke ext (Func n) args kw st = outcome (client_call ext n args kw st)"
| "invoke ext (Method self m) args kw st = outcome (client_call ext m (self # args) kw st)"
| "invoke ext DeleteWrapper [] kw st =
     (case map_of kw ''delete_thing'' of
        None \<Rightarrow> (Some (TypeError ''delete_wrapper() takes at least 2 arguments''), st)
      | Some delete_thing \<Rightarrow> delete_wrapper ext delete_thing [] (AList.delete ''delete_thing'' kw) st)"
| "invoke ext DeleteWrapper (delete_thing # args) kw st =
     (if map_of kw ''delete_thing'' \<noteq> None
      then (Some (TypeError ''delete_wrapper() got multiple values for keyword argument''), st)
      else delete_wrapper ext delete_thing args kw st)"
| "call_value ext v args kw st =
     (case v of VCallable f \<Rightarrow> invoke ext f args kw st
      | _ \<Rightarrow> (Some (TypeError ''object is not callable''), st))"
| "delete_wrapper ext delete_thing args kw st =
     (case call_value ext delete_thing args kw st of
        (Some (NotFound m), st') \<Rightarrow> (None, st')
      | r \<Rightarrow> r)"
  by pat_completeness auto

lemma kw_size_delete:
  "size_list (\<lambda>p. size (snd p)) (AList.delete k kw) \<le> size_list (\<lambda>p. size (snd p)) kw"
  by (induction kw) auto

lemma kw_size_lookup:
  "map_of kw k = Some d \<Longrightarrow>
     size d + size_list (\<lambda>p. size (snd p)) (AList.delete k kw) < size_list (\<lambda>p. size (snd p)) kw"
proof (induction kw)
  case Nil
  then show ?case by simp
next
  case (Cons p kw)
  then show ?case
    using kw_size_delete[of k kw] by (cases p) (auto split: if_splits)
qed

text \<open>
  Every call passes to a callable that is a part of the arguments or of the keywords of
  the caller.
\<close>

termination invoke
  apply (relation "measure (\<lambda>x. case x of
      Inl (ext, f, args, kw, st) \<Rightarrow>
        3 * (size f + size_list size args + size_list (\<lambda>p. size (snd p)) kw)
    | Inr (Inl (ext, v, args, kw, st)) \<Rightarrow>
        3 * (size v + size_list size args + size_list (\<lambda>p. size (snd p)) kw) + 1
    | Inr (Inr (ext, v, args, kw, st)) \<Rightarrow>
        3 * (size v + size_list size args + size_list (\<lambda>p. size (snd p)) kw) + 2)")
      apply simp
     apply (simp, drule kw_size_lookup, simp)
    apply simp
   apply simp
  apply simp
  done

subsection \<open>\<^verbatim>\<open>setUp\<close>, \<^verbatim>\<open>addCleanup_with_wait\<close>, \<^verbatim>\<open>_wait_for_cleanups\<close>\<close>

text \<open>
  \<^verbatim>\<open>setUp\<close> runs after the base class's own \<^verbatim>\<open>setUp\<close> (whose cleanups are already on the
  stack of the state it starts from): it empties the wait queue and registers
  \<^verbatim>\<open>_wait_for_cleanups\<close> as a cleanup.
\<close>

definition setUp :: "'w test \<Rightarrow> 'w test" where
  "setUp st = addCleanup WaitForCleanups (st\<lparr>cleanup_waits := []\<rparr>)"

text \<open>
  The wait dictionary is the literal
  \<^verbatim>\<open>{'waiter_callable': waiter_callable, thing_id_param: thing_id}\<close>, to which
  \<^verbatim>\<open>'client'\<close> is added when \<^verbatim>\<open>waiter_client\<close> is truthy; a later equal key overwrites.
\<close>

definition addCleanup_with_wait ::
  "pyval \<Rightarrow> pyval \<Rightarrow> string \<Rightarrow> callable \<Rightarrow> pyval list option \<Rightarrow> kwargs option \<Rightarrow> pyval \<Rightarrow>
   'w test \<Rightarrow> 'w test" where
  "addCleanup_with_wait waiter_callable thing_id thing_id_param cleanup_callable
       cleanup_args cleanup_kwargs waiter_client st =
     (let cleanup_args = (case cleanup_args of None \<Rightarrow> [] | Some a \<Rightarrow> a);
          cleanup_kwargs = (case cleanup_kwargs of None \<Rightarrow> [] | Some k \<Rightarrow> k);
          st1 = addCleanup (Cleanup cleanup_callable cleanup_args cleanup_kwargs) st;
          wait_dict = AList.update thing_id_param thing_id
                        [(''waiter_callable'', waiter_callable)];
          wait_dict = (if truthy waiter_client
                       then AList.update ''client'' waiter_client wait_dict
                       else wait_dict)
      in st1\<lparr>cleanup_waits := cleanup_waits st1 @ [wait_dict]\<rparr>)"

text \<open>
  The loop of \<^verbatim>\<open>_wait_for_cleanups\<close>: \<^verbatim>\<open>wait.pop('waiter_callable')\<close> removes the key from
  the queued dictionary itself (a missing key raises \<^verbatim>\<open>KeyError\<close>), then the waiter is
  called with what is left as keyword arguments. An exception leaves the loop. The
  function returns the queue as the loop has left it.
\<close>

fun wait_loop :: "'w extern \<Rightarrow> kwargs list \<Rightarrow> 'w test \<Rightarrow> exn option \<times> kwargs list \<times> 'w test" where
  "wait_loop ext [] st = (None, [], st)"
| "wait_loop ext (wait # rest) st =
     (case map_of wait ''waiter_callable'' of
        None \<Rightarrow> (Some (KeyError ''waiter_callable''), wait # rest, st)
      | Some waiter_callable \<Rightarrow>
          (let wait' = AList.delete ''waiter_callable'' wait;
               st1 = st\<lparr>trace := trace st @ [WaiterCalled waiter_callable wait']\<rparr>
           in case call_value ext waiter_callable [] wait' st1 of
                (Some e, st2) \<Rightarrow> (Some e, wait' # rest, st2)
              | (None, st2) \<Rightarrow>
                  (case wait_loop ext rest st2 of
                     (r, rest', st3) \<Rightarrow> (r, wait' # rest', st3))))"

definition wait_for_cleanups :: "'w extern \<Rightarrow> 'w test \<Rightarrow> exn option \<times> 'w test" where
  "wait_for_cleanups ext st =
     (case wait_loop ext (cleanup_waits st) st of
        (r, ws, st') \<Rightarrow> (r, st'\<lparr>cleanup_waits := ws\<rparr>))"

subsection \<open>Draining at teardown\<close>

fun fire :: "'w extern \<Rightarrow> cleanup_entry \<Rightarrow> 'w test \<Rightarrow> exn option \<times> 'w test" where
  "fire ext (Cleanup f args kw) st =
     invoke ext f args kw (st\<lparr>trace := trace st @ [CleanupFired (Cleanup f args kw)]\<rparr>)"
| "fire ext WaitForCleanups st =
     wait_for_cleanups ext (st\<lparr>trace := trace st @ [CleanupFired WaitForCleanups]\<rparr>)"

text \<open>
  Modelled from the spec: the framework's drain (section 4.2, failure policy). Entries
  run newest first; a failing entry is recorded with its error and the remaining
  entries still run. No callable of this model registers a cleanup while the stack is
  drained, so popping one entry at a time is running the reversed stack.
\<close>

fun run_entries ::
  "'w extern \<Rightarrow> cleanup_entry list \<Rightarrow> 'w test \<Rightarrow> (cleanup_entry \<times> exn) list \<times> 'w test" where
  "run_entries ext [] st = ([], st)"
| "run_entries ext (e # es) st =
     (case fire ext e st of
        (r, st1) \<Rightarrow>
          (case run_entries ext es st1 of
             (errs, st2) \<Rightarrow> ((case r of None \<Rightarrow> [] | Some x \<Rightarrow> [(e, x)]) @ errs, st2)))"

definition doCleanups :: "'w extern \<Rightarrow> 'w test \<Rightarrow> (cleanup_entry \<times> exn) list \<times> 'w test" where
  "doCleanups ext st = run_entries ext (rev (cleanups st)) (st\<lparr>cleanups := []\<rparr>)"

text \<open>What a test does to the registry: a plain registration or one with a wait.\<close>

datatype registration =
    Plain callable "pyval list" kwargs
  | WithWait pyval pyval string callable "pyval list option" "kwargs option" pyval

fun register :: "registration \<Rightarrow> 'w test \<Rightarrow> 'w test" where
  "register (Plain f args kw) st = addCleanup (Cleanup f args kw) st"
| "register (WithWait waiter thing_id thing_id_param f args kw client) st =
     addCleanup_with_wait waiter thing_id thing_id_param f args kw client st"

definition register_all :: "registration list \<Rightarrow> 'w test \<Rightarrow> 'w test" where
  "register_all regs st = foldl (\<lambda>s r. register r s) st regs"

text \<open>The cleanup entry a registration puts on the stack.\<close>

fun cleanup_of :: "registration \<Rightarrow> cleanup_entry" where
  "cleanup_of (Plain f args kw) = Cleanup f args kw"
| "cleanup_of (WithWait waiter thing_id thing_id_param f args kw client) =
     Cleanup f (case args of None \<Rightarrow> [] | Some a \<Rightarrow> a) (case kw of None \<Rightarrow> [] | Some k \<Rightarrow> k)"

section \<open>Resource factories\<close>

text \<open>
  What the factories read from the configuration and from \<^verbatim>\<open>data_utils.rand_name\<close>; the
  candidate blocks are \<^verbatim>\<open>netaddr.IPNetwork(cidr).subnet(mask_bits)\<close> for the configured
  tenant network, in the order the generator yields them.
\<close>

record config =
  class_name :: string
  rand_name :: "string \<Rightarrow> string"
  client_tenant_id :: "pyval \<Rightarrow> pyval"
  floating_network_name :: pyval
  tenant_blocks_v4 :: "string list"
  tenant_blocks_v6 :: "string list"
  ping_timeout :: int
  power_timeout :: int




text \<open>\<^verbatim>\<open>create_volume\<close>; \<^verbatim>\<open>volume_kwargs\<close> is its local dictionary \<^verbatim>\<open>kwargs\<close>.\<close>

definition volume_name :: "config \<Rightarrow> pyval \<Rightarrow> pyval" where
  "volume_name conf name = (if name = VNone then VStr (rand_name conf (class_name conf)) else name)"

definition volume_kwargs :: "pyval \<Rightarrow> pyval \<Rightarrow> pyval \<Rightarrow> pyval \<Rightarrow> pyval \<Rightarrow> kwargs" where
  "volume_kwargs size' name snapshot_id imageRef volume_type =
     (let kwargs = [(''display_name'', name), (''snapshot_id'', snapshot_id),
                    (''imageRef'', imageRef), (''volume_type'', volume_type)]
      in if size' \<noteq> VNone then AList.update ''size'' size' kwargs else kwargs)"

definition create_volume ::
  "config \<Rightarrow> 'w extern \<Rightarrow> pyval \<Rightarrow> pyval \<Rightarrow> pyval \<Rightarrow> pyval \<Rightarrow> pyval \<Rightarrow> ('w, pyval) action" where
  "create_volume conf ext size' name snapshot_id imageRef volume_type =
     (let name = volume_name conf name;
          kwargs = volume_kwargs size' name snapshot_id imageRef volume_type;
          volumes_client = VClient ''volumes_client''
      in bind_res (method_call ext volumes_client ''create_volume'' [] kwargs) (\<lambda>r.
         bind_res (lift (subscript r ''volume'')) (\<lambda>volume.
         bind_res (lift (subscript volume ''id'')) (\<lambda>volume_id.
         bind_res (addCleanupA (Cleanup (Method volumes_client ''wait_for_resource_deletion'')
                                  [volume_id] [])) (\<lambda>_.
         bind_res (addCleanupA (Cleanup DeleteWrapper
                                  [VCallable (Method volumes_client ''delete_volume''), volume_id] [])) (\<lambda>_.
         bind_res (lift (bind_sum (py_in ''display_name'' volume) (\<lambda>b.
                     if b then bind_sum (subscript volume ''display_name'') (\<lambda>n. assertEqual name n [])
                     else bind_sum (subscript volume ''name'') (\<lambda>n. assertEqual name n [])))) (\<lambda>_.
         bind_res (client_call ext ''waiters.wait_for_volume_status''
                     [volumes_client, volume_id, VStr ''available''] []) (\<lambda>_.
         bind_res (method_call ext volumes_client ''show_volume'' [volume_id] []) (\<lambda>r.
         lift (subscript r ''volume''))))))))))"

text \<open>
  \<^verbatim>\<open>_image_create\<close>; \<^verbatim>\<open>image_params\<close> is its local dictionary \<^verbatim>\<open>params\<close>. Opening the
  image file is an external operation (it may raise).
\<close>

definition image_params :: "config \<Rightarrow> string \<Rightarrow> pyval \<Rightarrow> pyval \<Rightarrow> pyval \<Rightarrow> kwargs" where
  "image_params conf name fmt disk_format properties =
     (let properties = (if properties = VNone then VDict [] else properties);
          name = VStr (rand_name conf (name @ ''-''));
          params = [(''name'', name), (''container_format'', fmt),
                    (''disk_format'', if truthy disk_format then disk_format else fmt),
                    (''is_public'', VStr ''False'')]
      in AList.update ''properties'' properties params)"

definition image_create ::
  "config \<Rightarrow> 'w extern \<Rightarrow> string \<Rightarrow> pyval \<Rightarrow> pyval \<Rightarrow> pyval \<Rightarrow> pyval \<Rightarrow> ('w, pyval) action" where
  "image_create conf ext name fmt path disk_format properties =
     (let params = image_params conf name fmt disk_format properties;
          image_client = VClient ''image_client''
      in bind_res (method_call ext image_client ''create_image'' [] params) (\<lambda>r.
         bind_res (lift (subscript r ''image'')) (\<lambda>image.
         bind_res (lift (subscript image ''id'')) (\<lambda>image_id.
         bind_res (addCleanupA (Cleanup (Method image_client ''delete_image'') [image_id] [])) (\<lambda>_.
         bind_res (lift (bind_sum (subscript image ''status'') (\<lambda>s. assertEqual (VStr ''queued'') s []))) (\<lambda>_.
         bind_res (client_call ext ''open'' [path, VStr ''rb''] []) (\<lambda>image_file.
         bind_res (method_call ext image_client ''update_image'' [image_id] [(''data'', image_file)]) (\<lambda>_.
         ret image_id))))))))"


text \<open>\<^verbatim>\<open>NetworkScenarioTest._create_network\<close>.\<close>

definition create_network ::
  "config \<Rightarrow> 'w extern \<Rightarrow> pyval \<Rightarrow> pyval \<Rightarrow> pyval \<Rightarrow> pyval \<Rightarrow> string \<Rightarrow> ('w, pyval) action" where
  "create_network conf ext client networks_client routers_client tenant_id namestart =
     (let client = (if \<not> truthy client then VClient ''network_client'' else client);
          networks_client = (if \<not> truthy networks_client then VClient ''networks_client'' else networks_client);
          routers_client = (if \<not> truthy routers_client then VClient ''routers_client'' else routers_client);
          tenant_id = (if \<not> truthy tenant_id then client_tenant_id conf client else tenant_id);
          name = VStr (rand_name conf namestart)
      in bind_res (method_call ext networks_client ''create_network'' []
                     [(''name'', name), (''tenant_id'', tenant_id)]) (\<lambda>result.
         bind_res (lift (bind_sum (subscript result ''network'')
                     (construct ''DeletableNetwork''
                        [(''networks_client'', networks_client), (''routers_client'', routers_client)]))) (\<lambda>network.
         bind_res (lift (bind_sum (getattr network ''name'') (\<lambda>n. assertEqual n name []))) (\<lambda>_.
         bind_res (addCleanupA (Cleanup DeleteWrapper [VCallable (Method network ''delete'')] [])) (\<lambda>_.
         ret network)))))"

text \<open>
  \<^verbatim>\<open>create_server_snapshot\<close>. Reading the image id out of the response's location header
  and \<^verbatim>\<open>json.loads\<close> are the parameters \<^verbatim>\<open>location_id\<close> and \<^verbatim>\<open>json_loads\<close>.
\<close>

definition create_server_snapshot ::
  "config \<Rightarrow> 'w extern \<Rightarrow> (pyval \<Rightarrow> exn + pyval) \<Rightarrow> (pyval \<Rightarrow> exn + pyval) \<Rightarrow> pyval \<Rightarrow> pyval \<Rightarrow>
   ('w, pyval) action" where
  "create_server_snapshot conf ext location_id json_loads server name =
     (let image_client = VClient ''image_client'';
          images_client = VClient ''compute_images_client'';
          snapshots_client = VClient ''snapshots_client'';
          name = (if name = VNone then VStr (rand_name conf ''scenario-snapshot'') else name)
      in bind_res (lift (subscript server ''name'')) (\<lambda>_.
         bind_res (lift (subscript server ''id'')) (\<lambda>server_id.
         bind_res (method_call ext images_client ''create_image'' [server_id] [(''name'', name)]) (\<lambda>image.
         bind_res (lift (location_id image)) (\<lambda>image_id.
         bind_res (method_call ext image_client ''wait_for_image_status'' [image_id, VStr ''active''] []) (\<lambda>_.
         bind_res (\<lambda>st. (Inr (), addCleanup_with_wait
                      (VCallable (Method image_client ''wait_for_resource_deletion''))
                      image_id ''id'' DeleteWrapper
                      (Some [VCallable (Method image_client ''delete_image''), image_id])
                      None VNone st)) (\<lambda>_.
         bind_res (method_call ext image_client ''get_image_meta'' [image_id] []) (\<lambda>snapshot_image.
         bind_res (lift (bind_sum (dict_get snapshot_image ''properties'' (VDict []))
                     (\<lambda>p. dict_get p ''block_device_mapping'' VNone))) (\<lambda>bdm.
         bind_res (if truthy bdm
                   then bind_res (lift (json_loads bdm)) (\<lambda>bdm.
                        bind_res (lift (if truthy bdm
                                        then bind_sum (first_item bdm) (py_in ''snapshot_id'')
                                        else Inr False)) (\<lambda>has_snapshot.
                        if has_snapshot
                        then bind_res (lift (bind_sum (first_item bdm) (\<lambda>b. subscript b ''snapshot_id''))) (\<lambda>snapshot_id.
                             bind_res (addCleanupA (Cleanup (Method snapshots_client ''wait_for_resource_deletion'')
                                                      [snapshot_id] [])) (\<lambda>_.
                             bind_res (addCleanupA (Cleanup DeleteWrapper
                                                      [VCallable (Method snapshots_client ''delete_snapshot''),
                                                       snapshot_id] [])) (\<lambda>_.
                             bind_res (client_call ext ''waiters.wait_for_snapshot_status''
                                         [snapshots_client, snapshot_id, VStr ''available''] []) (\<lambda>_.
                             ret ()))))
                        else ret ()))
                   else ret ()) (\<lambda>_.
         bind_res (lift (bind_sum (subscript snapshot_image ''name'') (\<lambda>image_name.
                     bind_sum (assertEqual name image_name []) (\<lambda>_.
                     bind_sum (subscript server ''name'') (\<lambda>_. Inr ()))))) (\<lambda>_.
         ret snapshot_image)))))))))))"

subsection \<open>Subnet allocation: \<^verbatim>\<open>_create_subnet\<close>\<close>

text \<open>The inner function \<^verbatim>\<open>cidr_in_use\<close>, through \<^verbatim>\<open>_list_subnets\<close> (admin credentials).\<close>

definition cidr_in_use :: "'w extern \<Rightarrow> string \<Rightarrow> pyval \<Rightarrow> ('w, bool) action" where
  "cidr_in_use ext cidr tenant_id =
     bind_res (method_call ext (VClient ''admin_manager.subnets_client'') ''list_subnets'' []
                 [(''tenant_id'', tenant_id), (''cidr'', VStr cidr)]) (\<lambda>subnets_list.
     lift (bind_sum (subscript subnets_list ''subnets'') (\<lambda>l.
           bind_sum (py_len l) (\<lambda>n. Inr (n \<noteq> 0)))))"

text \<open>
  How one pass through the body of a \<^verbatim>\<open>for\<close> loop ends: it falls through or
  \<^verbatim>\<open>continue\<close>s, it \<^verbatim>\<open>break\<close>s (here with the value assigned to \<^verbatim>\<open>result\<close>), or it raises.
\<close>

datatype 'a flow = Continue | Break 'a | Raises exn

text \<open>
  The body of the \<^verbatim>\<open>for subnet_cidr in tenant_cidr.subnet(num_bits)\<close> loop: skip a block
  in use; otherwise try to create the subnet, \<^verbatim>\<open>break\<close> on success, go on after a
  \<^verbatim>\<open>Conflict\<close> whose string contains \<^verbatim>\<open>overlaps with another subnet\<close>, re-raise any other.
\<close>

text \<open>
  The request \<^verbatim>\<open>dict(name=..., network_id=..., tenant_id=..., cidr=..., ip_version=..., **kwargs)\<close>:
  the attributes of the network are read first; the call raises \<^verbatim>\<open>TypeError\<close> when
  \<^verbatim>\<open>kwargs\<close> gives one of the named keys again.
\<close>

definition subnet_keys :: "string list" where
  "subnet_keys = [''name'', ''network_id'', ''tenant_id'', ''cidr'', ''ip_version'']"

definition given_twice :: "kwargs \<Rightarrow> bool" where
  "given_twice kwargs = list_ex (\<lambda>k. map_of kwargs k \<noteq> None) subnet_keys"

definition subnet_dict :: "config \<Rightarrow> pyval \<Rightarrow> string \<Rightarrow> pyval \<Rightarrow> kwargs \<Rightarrow> string \<Rightarrow> exn + kwargs" where
  "subnet_dict conf network namestart ip_version kwargs str_cidr =
     bind_sum (getattr network ''id'') (\<lambda>network_id.
     bind_sum (getattr network ''tenant_id'') (\<lambda>tenant_id.
     if given_twice kwargs
     then Inl (TypeError ''dict() got multiple values for keyword argument'')
     else Inr ([(''name'', VStr (rand_name conf namestart)), (''network_id'', network_id),
                (''tenant_id'', tenant_id), (''cidr'', VStr str_cidr),
                (''ip_version'', ip_version)] @ kwargs)))"

definition subnet_body ::
  "config \<Rightarrow> 'w extern \<Rightarrow> pyval \<Rightarrow> pyval \<Rightarrow> string \<Rightarrow> pyval \<Rightarrow> kwargs \<Rightarrow> string \<Rightarrow>
   'w test \<Rightarrow> pyval flow \<times> 'w test" where
  "subnet_body conf ext subnets_client network namestart ip_version kwargs subnet_cidr st =
     (case bind_res (lift (getattr network ''tenant_id'')) (cidr_in_use ext subnet_cidr) st of
        (Inl e, st1) \<Rightarrow> (Raises e, st1)
      | (Inr True, st1) \<Rightarrow> (Continue, st1)
      | (Inr False, st1) \<Rightarrow>
          (case subnet_dict conf network namestart ip_version kwargs subnet_cidr of
             Inl e \<Rightarrow> (Raises e, st1)
           | Inr subnet \<Rightarrow>
               (case method_call ext subnets_client ''create_subnet'' [] subnet st1 of
                  (Inr result, st2) \<Rightarrow> (Break result, st2)
                | (Inl (Conflict m), st2) \<Rightarrow>
                    if \<not> sublist ''overlaps with another subnet'' m then (Raises (Conflict m), st2)
                    else (Continue, st2)
                | (Inl e, st2) \<Rightarrow> (Raises e, st2))))"

text \<open>
  The loop over the candidate blocks. It returns \<^verbatim>\<open>result\<close> (\<^verbatim>\<open>None\<close> when the loop ends
  without \<^verbatim>\<open>break\<close>) and the last \<^verbatim>\<open>str_cidr\<close>.
\<close>

fun subnet_loop ::
  "config \<Rightarrow> 'w extern \<Rightarrow> pyval \<Rightarrow> pyval \<Rightarrow> string \<Rightarrow> pyval \<Rightarrow> kwargs \<Rightarrow> string list \<Rightarrow> pyval \<Rightarrow>
   ('w, pyval \<times> pyval) action" where
  "subnet_loop conf ext subnets_client network namestart ip_version kwargs [] str_cidr st =
     (Inr (VNone, str_cidr), st)"
| "subnet_loop conf ext subnets_client network namestart ip_version kwargs (subnet_cidr # rest) str_cidr st =
     (case subnet_body conf ext subnets_client network namestart ip_version kwargs subnet_cidr st of
        (Continue, st1) \<Rightarrow>
          subnet_loop conf ext subnets_client network namestart ip_version kwargs rest (VStr subnet_cidr) st1
      | (Break result, st1) \<Rightarrow> (Inr (result, VStr subnet_cidr), st1)
      | (Raises e, st1) \<Rightarrow> (Inl e, st1))"

text \<open>
  \<^verbatim>\<open>kwargs.pop('ip_version', 4)\<close>, and the blocks of the tenant network configured for that
  version.
\<close>

definition ip_version_of :: "kwargs \<Rightarrow> pyval" where
  "ip_version_of kwargs = (case map_of kwargs ''ip_version'' of None \<Rightarrow> VInt 4 | Some v \<Rightarrow> v)"

definition candidate_blocks :: "config \<Rightarrow> pyval \<Rightarrow> string list" where
  "candidate_blocks conf ip_version =
     (if ip_version = VInt 6 then tenant_blocks_v6 conf else tenant_blocks_v4 conf)"

definition create_subnet ::
  "config \<Rightarrow> 'w extern \<Rightarrow> pyval \<Rightarrow> pyval \<Rightarrow> pyval \<Rightarrow> pyval \<Rightarrow> string \<Rightarrow> kwargs \<Rightarrow> ('w, pyval) action" where
  "create_subnet conf ext network client subnets_client routers_client namestart kwargs =
     (let client = (if \<not> truthy client then VClient ''network_client'' else client);
          subnets_client = (if \<not> truthy subnets_client then VClient ''subnets_client'' else subnets_client);
          routers_client = (if \<not> truthy routers_client then VClient ''routers_client'' else routers_client);
          ip_version = ip_version_of kwargs;
          kwargs = AList.delete ''ip_version'' kwargs;
          blocks = candidate_blocks conf ip_version
      in bind_res (subnet_loop conf ext subnets_client network namestart ip_version kwargs blocks VNone)
           (\<lambda>(result, str_cidr).
         bind_res (lift (assertIsNotNone result ''Unable to allocate tenant network'')) (\<lambda>_.
         bind_res (lift (bind_sum (subscript result ''subnet'')
                     (construct ''DeletableSubnet''
                        [(''network_client'', client), (''subnets_client'', subnets_client),
                         (''routers_client'', routers_client)]))) (\<lambda>subnet.
         bind_res (lift (bind_sum (getattr subnet ''cidr'') (\<lambda>c. assertEqual c str_cidr []))) (\<lambda>_.
         bind_res (addCleanupA (Cleanup DeleteWrapper [VCallable (Method subnet ''delete'')] [])) (\<lambda>_.
         ret subnet))))))"

subsection \<open>Security group rules\<close>

text \<open>The comprehension of \<^verbatim>\<open>_default_security_group\<close> over the listed groups.\<close>

fun default_groups :: "pyval \<Rightarrow> pyval list \<Rightarrow> exn + pyval list" where
  "default_groups tenant_id [] = Inr []"
| "default_groups tenant_id (sg # sgs) =
     bind_sum (subscript sg ''tenant_id'') (\<lambda>t.
     bind_sum (if t = tenant_id then bind_sum (subscript sg ''name'') (\<lambda>n. Inr (n = VStr ''default''))
               else Inr False) (\<lambda>keep.
     bind_sum (default_groups tenant_id sgs) (\<lambda>rest. Inr (if keep then sg # rest else rest))))"

fun first_value :: "pyval \<Rightarrow> exn + pyval" where
  "first_value (VDict ((k, v) # d)) = Inr v"
| "first_value (VDict []) = Inl (OtherError ''IndexError'' ''list index out of range'')"
| "first_value v = Inl (AttributeError ''values'')"

definition default_security_group :: "config \<Rightarrow> 'w extern \<Rightarrow> pyval \<Rightarrow> pyval \<Rightarrow> ('w, pyval) action" where
  "default_security_group conf ext client tenant_id =
     (let client = (if client = VNone then VClient ''security_groups_client'' else client);
          tenant_id = (if \<not> truthy tenant_id then client_tenant_id conf client else tenant_id)
      in bind_res (method_call ext client ''list_security_groups'' [] []) (\<lambda>r.
         bind_res (lift (bind_sum (first_value r) (\<lambda>v.
                     case v of VList xs \<Rightarrow> default_groups tenant_id xs
                     | _ \<Rightarrow> Inl (TypeError ''object is not iterable'')))) (\<lambda>sgs.
         lift (case sgs of
                 [] \<Rightarrow> Inl (AssertionError ''No default security group for tenant'')
               | sg # _ \<Rightarrow> construct ''DeletableSecurityGroup'' [(''client'', client)] sg))))"

definition create_security_group_rule ::
  "config \<Rightarrow> 'w extern \<Rightarrow> pyval \<Rightarrow> pyval \<Rightarrow> pyval \<Rightarrow> pyval \<Rightarrow> kwargs \<Rightarrow> ('w, pyval) action" where
  "create_security_group_rule conf ext secgroup sec_group_rules_client tenant_id security_groups_client kwargs =
     (let sec_group_rules_client =
            (if sec_group_rules_client = VNone then VClient ''security_group_rules_client''
             else sec_group_rules_client);
          security_groups_client =
            (if security_groups_client = VNone then VClient ''security_groups_client''
             else security_groups_client);
          tenant_id = (if \<not> truthy tenant_id then client_tenant_id conf security_groups_client
                       else tenant_id)
      in bind_res (if secgroup = VNone
                   then default_security_group conf ext security_groups_client tenant_id
                   else ret secgroup) (\<lambda>secgroup.
         bind_res (lift (bind_sum (getattr secgroup ''id'') (\<lambda>sid.
                         bind_sum (getattr secgroup ''tenant_id'') (\<lambda>tid.
                         Inr (fold (\<lambda>(k, v). AList.update k v) kwargs
                                [(''security_group_id'', sid), (''tenant_id'', tid)]))))) (\<lambda>ruleset.
         bind_res (method_call ext sec_group_rules_client ''create_security_group_rule'' [] ruleset) (\<lambda>r.
         bind_res (lift (bind_sum (subscript r ''security_group_rule'')
                     (construct ''DeletableSecurityGroupRule'' [(''client'', sec_group_rules_client)]))) (\<lambda>sg_rule.
         bind_res (lift (bind_sum (getattr secgroup ''tenant_id'') (\<lambda>a.
                         bind_sum (getattr sg_rule ''tenant_id'') (\<lambda>b. assertEqual a b [])))) (\<lambda>_.
         bind_res (lift (bind_sum (getattr secgroup ''id'') (\<lambda>a.
                         bind_sum (getattr sg_rule ''security_group_id'') (\<lambda>b. assertEqual a b [])))) (\<lambda>_.
         ret sg_rule)))))))"

text \<open>
  \<^verbatim>\<open>NetworkScenarioTest._create_loginable_secgroup_rule\<close>. The two nested \<^verbatim>\<open>for\<close> loops
  run through \<^verbatim>\<open>rule_requests\<close>: for each ruleset, for each direction, the ruleset with
  that direction written into it. Each rule is created inside \<^verbatim>\<open>try\<close> /
  \<^verbatim>\<open>except lib_exc.Conflict\<close>; the \<^verbatim>\<open>else\<close> branch checks the direction and appends the rule.
\<close>

definition rulesets :: "kwargs list" where
  "rulesets =
     [[(''protocol'', VStr ''tcp''), (''port_range_min'', VInt 22), (''port_range_max'', VInt 22)],
      [(''protocol'', VStr ''icmp'')],
      [(''protocol'', VStr ''icmp''), (''ethertype'', VStr ''IPv6'')]]"

definition rule_requests :: "(kwargs \<times> string) list" where
  "rule_requests =
     concat (map (\<lambda>ruleset.
               map (\<lambda>r_direction. (AList.update ''direction'' (VStr r_direction) ruleset, r_direction))
                 [''ingress'', ''egress''])
             rulesets)"

fun rule_loop ::
  "config \<Rightarrow> 'w extern \<Rightarrow> pyval \<Rightarrow> pyval \<Rightarrow> pyval \<Rightarrow> (kwargs \<times> string) list \<Rightarrow> pyval list \<Rightarrow>
   ('w, pyval list) action" where
  "rule_loop conf ext sec_group_rules_client secgroup security_groups_client [] rules st =
     (Inr rules, st)"
| "rule_loop conf ext sec_group_rules_client secgroup security_groups_client
       ((ruleset, r_direction) # rest) rules st =
     (case create_security_group_rule conf ext secgroup sec_group_rules_client VNone
             security_groups_client ruleset st of
        (Inl (Conflict m), st1) \<Rightarrow>
          if \<not> sublist ''Security group rule already exists'' m then (Inl (Conflict m), st1)
          else rule_loop conf ext sec_group_rules_client secgroup security_groups_client rest rules st1
      | (Inl e, st1) \<Rightarrow> (Inl e, st1)
      | (Inr sg_rule, st1) \<Rightarrow>
          (case bind_sum (getattr sg_rule ''direction'') (\<lambda>d. assertEqual (VStr r_direction) d []) of
             Inl e \<Rightarrow> (Inl e, st1)
           | Inr _ \<Rightarrow> rule_loop conf ext sec_group_rules_client secgroup security_groups_client
                        rest (rules @ [sg_rule]) st1))"

definition create_loginable_secgroup_rule ::
  "config \<Rightarrow> 'w extern \<Rightarrow> pyval \<Rightarrow> pyval \<Rightarrow> pyval \<Rightarrow> ('w, pyval list) action" where
  "create_loginable_secgroup_rule conf ext security_group_rules_client secgroup security_groups_client =
     (let security_group_rules_client =
            (if security_group_rules_client = VNone then VClient ''security_group_rules_client''
             else security_group_rules_client);
          security_groups_client =
            (if security_groups_client = VNone then VClient ''security_groups_client''
             else security_groups_client)
      in rule_loop conf ext security_group_rules_client secgroup security_groups_client rule_requests [])"

section \<open>Polling helpers\<close>

text \<open>
  Modelled from the spec: \<^verbatim>\<open>tempest.test.call_until_true\<close> is not in the source tree.
  Section 4.4: given a predicate, a total timeout and a poll interval, invoke the
  predicate until it returns true or the timeout elapses, and return the boolean that
  says which occurred; sleep for the interval between checks. Time is the backend's
  clock (\<^verbatim>\<open>clock\<close> reads it, \<^verbatim>\<open>sleep\<close> advances it); an exception of the predicate
  leaves the loop. The loop need not end, so the result is an option.
\<close>

partial_function (option) poll_loop ::
  "('w \<Rightarrow> int) \<Rightarrow> (int \<Rightarrow> 'w \<Rightarrow> 'w) \<Rightarrow> ('w, bool) action \<Rightarrow> int \<Rightarrow> int \<Rightarrow> 'w test \<Rightarrow>
   ((exn + bool) \<times> 'w test) option" where
  "poll_loop clock sleep func timeout sleep_for st =
     (if clock (world st) < timeout
      then (case func st of
              (r, st1) \<Rightarrow>
                if r = Inr False
                then poll_loop clock sleep func timeout sleep_for
                       (st1\<lparr>world := sleep sleep_for (world st1)\<rparr>)
                else Some (r, st1))
      else Some (Inr False, st))"

definition call_until_true ::
  "('w \<Rightarrow> int) \<Rightarrow> (int \<Rightarrow> 'w \<Rightarrow> 'w) \<Rightarrow> ('w, bool) action \<Rightarrow> int \<Rightarrow> int \<Rightarrow> 'w test \<Rightarrow>
   ((exn + bool) \<times> 'w test) option" where
  "call_until_true clock sleep func duration sleep_for st =
     poll_loop clock sleep func (clock (world st) + duration) sleep_for st"

text \<open>
  \<^verbatim>\<open>ping_ip_address\<close>: the inner \<^verbatim>\<open>ping\<close> runs the command and compares its return code;
  the result of \<^verbatim>\<open>call_until_true(ping, timeout, 1)\<close> is returned.
\<close>

definition ping :: "'w extern \<Rightarrow> pyval \<Rightarrow> bool \<Rightarrow> ('w, bool) action" where
  "ping ext ip_address should_succeed =
     bind_res (client_call ext ''subprocess.Popen''
                 [VList [VStr ''ping'', VStr ''-c1'', VStr ''-w1'', ip_address]] []) (\<lambda>returncode.
     ret ((returncode = VInt 0) = should_succeed))"

definition ping_ip_address ::
  "config \<Rightarrow> ('w \<Rightarrow> int) \<Rightarrow> (int \<Rightarrow> 'w \<Rightarrow> 'w) \<Rightarrow> 'w extern \<Rightarrow> pyval \<Rightarrow> bool \<Rightarrow> int option \<Rightarrow> 'w test \<Rightarrow>
   ((exn + bool) \<times> 'w test) option" where
  "ping_ip_address conf clock sleep ext ip_address should_succeed ping_timeout' st =
     (let timeout = (case ping_timeout' of None \<Rightarrow> ping_timeout conf
                     | Some t \<Rightarrow> if t \<noteq> 0 then t else ping_timeout conf)
      in call_until_true clock sleep (ping ext ip_address should_succeed) timeout 1 st)"

text \<open>\<^verbatim>\<open>get_node\<close>; the client answers with the body of the node.\<close>

definition get_node :: "'w extern \<Rightarrow> pyval \<Rightarrow> pyval \<Rightarrow> ('w, pyval) action" where
  "get_node ext node_id instance_id =
     (if truthy node_id
      then method_call ext (VClient ''baremetal_client'') ''show_node'' [node_id] []
      else if truthy instance_id
      then bind_res (method_call ext (VClient ''baremetal_client'') ''show_node_by_instance_uuid''
                       [instance_id] []) (\<lambda>body.
           bind_res (lift (subscript body ''nodes'')) (\<lambda>nodes.
           if truthy nodes then lift (first_item nodes) else ret VNone))
      else ret VNone)"

definition check_state :: "'w extern \<Rightarrow> pyval \<Rightarrow> string \<Rightarrow> pyval list \<Rightarrow> ('w, bool) action" where
  "check_state ext node_id state_attr target_states =
     bind_res (get_node ext node_id VNone) (\<lambda>node.
     lift (bind_sum (dict_get node state_attr VNone) (\<lambda>v. Inr (v \<in> set target_states))))"

definition node_state_timeout ::
  "('w \<Rightarrow> int) \<Rightarrow> (int \<Rightarrow> 'w \<Rightarrow> 'w) \<Rightarrow> 'w extern \<Rightarrow> pyval \<Rightarrow> string \<Rightarrow> pyval \<Rightarrow> int \<Rightarrow> int \<Rightarrow> 'w test \<Rightarrow>
   ((exn + unit) \<times> 'w test) option" where
  "node_state_timeout clock sleep ext node_id state_attr target_states timeout interval st =
     (let target_states = (case target_states of VList xs \<Rightarrow> xs | v \<Rightarrow> [v])
      in case call_until_true clock sleep (check_state ext node_id state_attr target_states)
                timeout interval st of
           None \<Rightarrow> None
         | Some (Inl e, st1) \<Rightarrow> Some (Inl e, st1)
         | Some (Inr b, st1) \<Rightarrow>
             if \<not> b then Some (Inl (TimeoutException ''Timed out waiting for node to reach state(s)''), st1)
             else Some (Inr (), st1))"

definition wait_provisioning_state ::
  "('w \<Rightarrow> int) \<Rightarrow> (int \<Rightarrow> 'w \<Rightarrow> 'w) \<Rightarrow> 'w extern \<Rightarrow> pyval \<Rightarrow> pyval \<Rightarrow> int \<Rightarrow> 'w test \<Rightarrow>
   ((exn + unit) \<times> 'w test) option" where
  "wait_provisioning_state clock sleep ext node_id state timeout =
     node_state_timeout clock sleep ext node_id ''provision_state'' state timeout 1"

definition wait_power_state ::
  "config \<Rightarrow> ('w \<Rightarrow> int) \<Rightarrow> (int \<Rightarrow> 'w \<Rightarrow> 'w) \<Rightarrow> 'w extern \<Rightarrow> pyval \<Rightarrow> pyval \<Rightarrow> 'w test \<Rightarrow>
   ((exn + unit) \<times> 'w test) option" where
  "wait_power_state conf clock sleep ext node_id state =
     node_state_timeout clock sleep ext node_id ''power_state'' state (power_timeout conf) 1"

section \<open>Observing a teardown\<close>

text \<open>
  The entries the drain fired, in order; the trace without the external calls; what a
  registration queues and the call it stands for; a wait queue whose first dictionary
  was already popped; a backend of resource ids with the delete of section 6.
\<close>

fun fired_cleanups :: "event list \<Rightarrow> cleanup_entry list" where
  "fired_cleanups [] = []"
| "fired_cleanups (CleanupFired e # tr) = e # fired_cleanups tr"
| "fired_cleanups (ev # tr) = fired_cleanups tr"

fun is_ext :: "event \<Rightarrow> bool" where
  "is_ext (ExtCalled n a k r) = True"
| "is_ext ev = False"

definition fired :: "event list \<Rightarrow> event list" where
  "fired tr = filter (\<lambda>ev. \<not> is_ext ev) tr"

fun wait_dicts_of :: "registration \<Rightarrow> kwargs list" where
  "wait_dicts_of (Plain f args kw) = []"
| "wait_dicts_of (WithWait waiter thing_id thing_id_param f args kw client) =
     [let d = AList.update thing_id_param thing_id [(''waiter_callable'', waiter)]
      in if truthy client then AList.update ''client'' client d else d]"

definition spent :: "kwargs list \<Rightarrow> bool" where
  "spent ws = (case ws of [] \<Rightarrow> True | d # _ \<Rightarrow> map_of d ''waiter_callable'' = None)"

definition pop_call :: "kwargs \<Rightarrow> event" where
  "pop_call d = WaiterCalled (the (map_of d ''waiter_callable'')) (AList.delete ''waiter_callable'' d)"




text \<open>
  Modelled from the spec: the resource client capability of section 6, \<^verbatim>\<open>delete(id)\<close>,
  which signals the not-found error kind on the delete of a missing id. The backend is
  the list of the ids that exist.
\<close>

definition resource_delete :: "string list extern" where
  "resource_delete name args kw w =
     (case rev args of
        VStr i # _ \<Rightarrow> (if i \<in> set w then (Inr VNone, removeAll i w) else (Inl (NotFound i), w))
      | _ \<Rightarrow> (Inl (TypeError ''delete(id)''), w))"

fun delete_repeatedly ::
  "'w extern \<Rightarrow> pyval \<Rightarrow> pyval list \<Rightarrow> kwargs \<Rightarrow> nat \<Rightarrow> 'w test \<Rightarrow> exn option list \<times> 'w test" where
  "delete_repeatedly ext delete_thing args kw 0 st = ([], st)"
| "delete_repeatedly ext delete_thing args kw (Suc n) st =
     (case delete_wrapper ext delete_thing args kw st of
        (r, st1) \<Rightarrow>
          (case delete_repeatedly ext delete_thing args kw n st1 of
             (rs, st2) \<Rightarrow> (r # rs, st2)))"

text \<open>
  What a trace says about a subnet allocation: the blocks whose use was checked, the
  blocks whose creation was tried with what the backend answered, and the answer that
  makes the loop try the next block.
\<close>

definition cidr_kw :: "kwargs \<Rightarrow> string" where
  "cidr_kw kw = (case map_of kw ''cidr'' of Some (VStr c) \<Rightarrow> c | _ \<Rightarrow> [])"

fun subnet_checks :: "event list \<Rightarrow> string list" where
  "subnet_checks [] = []"
| "subnet_checks (ExtCalled n a k r # tr) =
     (if n = ''list_subnets'' then cidr_kw k # subnet_checks tr else subnet_checks tr)"
| "subnet_checks (ev # tr) = subnet_checks tr"

fun subnet_attempts :: "event list \<Rightarrow> (string \<times> (exn + pyval)) list" where
  "subnet_attempts [] = []"
| "subnet_attempts (ExtCalled n a k r # tr) =
     (if n = ''create_subnet'' then (cidr_kw k, r) # subnet_attempts tr else subnet_attempts tr)"
| "subnet_attempts (ev # tr) = subnet_attempts tr"

fun overlapping :: "exn + pyval \<Rightarrow> bool" where
  "overlapping (Inl (Conflict m)) = sublist ''overlaps with another subnet'' m"
| "overlapping r = False"

text \<open>The events a run has added to the trace since the state it started from.\<close>

definition since :: "'w test \<Rightarrow> 'w test \<Rightarrow> event list" where
  "since st st' = drop (length (trace st)) (trace st')"

text \<open>
  A backend on which no block can be allocated: every listing answers, and every
  creation of a subnet is refused as overlapping.
\<close>

definition all_blocks_taken :: "'w extern \<Rightarrow> bool" where
  "all_blocks_taken ext =
     ((\<forall>a k w. \<exists>d l. fst (ext ''list_subnets'' a k w) = Inr (VDict d) \<and>
                      map_of d ''subnets'' = Some (VList l)) \<and>
      (\<forall>a k w. overlapping (fst (ext ''create_subnet'' a k w))))"

text \<open>
  What a trace says about the creation of security group rules: the answers to the
  creations tried; an answer is a rule created, or the conflict that the factory
  takes for a rule that exists.
\<close>

fun rule_attempts :: "event list \<Rightarrow> (exn + pyval) list" where
  "rule_attempts [] = []"
| "rule_attempts (ExtCalled n a k r # tr) =
     (if n = ''create_security_group_rule'' then r # rule_attempts tr else rule_attempts tr)"
| "rule_attempts (ev # tr) = rule_attempts tr"

fun is_conflict :: "exn \<Rightarrow> bool" where
  "is_conflict (Conflict m) = True"
| "is_conflict e = False"

fun created :: "exn + pyval \<Rightarrow> bool" where
  "created (Inr v) = True"
| "created (Inl e) = False"

fun duplicate :: "exn + pyval \<Rightarrow> bool" where
  "duplicate (Inl (Conflict m)) = sublist ''Security group rule already exists'' m"
| "duplicate r = False"

definition created_or_duplicate :: "exn + pyval \<Rightarrow> bool" where
  "created_or_duplicate r = (created r \<or> duplicate r)"

text \<open>
  Time, for the polling helpers: sleeping for \<^verbatim>\<open>d\<close> moves the clock on by \<^verbatim>\<open>d\<close> at least, and
  no operation of the backend turns the clock back. A backend may be known to raise no
  timeout of its own.
\<close>

definition ticking :: "('w \<Rightarrow> int) \<Rightarrow> (int \<Rightarrow> 'w \<Rightarrow> 'w) \<Rightarrow> bool" where
  "ticking clock sleep = (\<forall>d w. clock w + d \<le> clock (sleep d w))"

definition steady :: "('w \<Rightarrow> int) \<Rightarrow> 'w extern \<Rightarrow> bool" where
  "steady clock ext = (\<forall>n a k w. clock w \<le> clock (snd (ext n a k w)))"

definition raises_no_timeout :: "'w extern \<Rightarrow> bool" where
  "raises_no_timeout ext = (\<forall>n a k w m. fst (ext n a k w) \<noteq> Inl (TimeoutException m))"

text \<open>The timeout that \<^verbatim>\<open>ping_ip_address\<close> polls with, and the list of states that
  \<^verbatim>\<open>_node_state_timeout\<close> waits for.\<close>

definition ping_timeout_of :: "config \<Rightarrow> int option \<Rightarrow> int" where
  "ping_timeout_of conf t = (case t of None \<Rightarrow> ping_timeout conf
                             | Some t \<Rightarrow> if t \<noteq> 0 then t else ping_timeout conf)"

definition states_of :: "pyval \<Rightarrow> pyval list" where
  "states_of target_states = (case target_states of VList xs \<Rightarrow> xs | v \<Rightarrow> [v])"

text \<open>
  A run of the polling, told from outside the loop. \<^verbatim>\<open>nth_poll n\<close> is the state in which
  the evaluation number \<^verbatim>\<open>n\<close> of the predicate begins when every evaluation before it has
  answered false: after each of them the helper sleeps for the interval. \<^verbatim>\<open>polled n\<close> says
  that the first \<^verbatim>\<open>n\<close> evaluations began before the deadline and answered false, and
  \<^verbatim>\<open>poll_result n\<close> is what the helper answers when it stops at evaluation \<^verbatim>\<open>n\<close>: the
  answer of the predicate when that evaluation begins before the deadline, false when
  the deadline has passed.
\<close>

definition poll_step :: "(int \<Rightarrow> 'w \<Rightarrow> 'w) \<Rightarrow> ('w, bool) action \<Rightarrow> int \<Rightarrow> 'w test \<Rightarrow> 'w test" where
  "poll_step sleep func sleep_for st =
     (snd (func st))\<lparr>world := sleep sleep_for (world (snd (func st)))\<rparr>"

fun nth_poll :: "(int \<Rightarrow> 'w \<Rightarrow> 'w) \<Rightarrow> ('w, bool) action \<Rightarrow> int \<Rightarrow> nat \<Rightarrow> 'w test \<Rightarrow> 'w test" where
  "nth_poll sleep func sleep_for 0 st = st"
| "nth_poll sleep func sleep_for (Suc n) st =
     nth_poll sleep func sleep_for n (poll_step sleep func sleep_for st)"

definition polled ::
  "('w \<Rightarrow> int) \<Rightarrow> (int \<Rightarrow> 'w \<Rightarrow> 'w) \<Rightarrow> ('w, bool) action \<Rightarrow> int \<Rightarrow> int \<Rightarrow> nat \<Rightarrow> 'w test \<Rightarrow> bool" where
  "polled clock sleep func deadline sleep_for n st =
     (\<forall>k<n. clock (world (nth_poll sleep func sleep_for k st)) < deadline \<and>
            fst (func (nth_poll sleep func sleep_for k st)) = Inr False)"

definition poll_result ::
  "('w \<Rightarrow> int) \<Rightarrow> (int \<Rightarrow> 'w \<Rightarrow> 'w) \<Rightarrow> ('w, bool) action \<Rightarrow> int \<Rightarrow> int \<Rightarrow> nat \<Rightarrow> 'w test \<Rightarrow>
   (exn + bool) \<times> 'w test" where
  "poll_result clock sleep func deadline sleep_for n st =
     (if clock (world (nth_poll sleep func sleep_for n st)) < deadline
      then func (nth_poll sleep func sleep_for n st)
      else (Inr False, nth_poll sleep func sleep_for n st))"

text \<open>
  The volume snapshot behind a snapshot image, as \<^verbatim>\<open>create_server_snapshot\<close> reads it out
  of the image's metadata: the \<^verbatim>\<open>snapshot_id\<close> of the first entry of the decoded
  \<^verbatim>\<open>block_device_mapping\<close> property, if there is one.
\<close>

definition snapshot_of :: "(pyval \<Rightarrow> exn + pyval) \<Rightarrow> pyval \<Rightarrow> exn + pyval option" where
  "snapshot_of json_loads snapshot_image =
     (case bind_sum (dict_get snapshot_image ''properties'' (VDict []))
             (\<lambda>p. dict_get p ''block_device_mapping'' VNone) of
        Inl e \<Rightarrow> Inl e
      | Inr bdm \<Rightarrow>
          if truthy bdm
          then (case json_loads bdm of
                  Inl e \<Rightarrow> Inl e
                | Inr bdm \<Rightarrow>
                    (case (if truthy bdm then bind_sum (first_item bdm) (py_in ''snapshot_id'')
                           else Inr False) of
                       Inl e \<Rightarrow> Inl e
                     | Inr has_snapshot \<Rightarrow>
                         if has_snapshot
                         then (case bind_sum (first_item bdm) (\<lambda>b. subscript b ''snapshot_id'') of
                                 Inl e \<Rightarrow> Inl e
                               | Inr snapshot_id \<Rightarrow> Inr (Some snapshot_id))
                         else Inr None))
          else Inr None)"

section \<open>Concrete backends and scenarios\<close>

text \<open>A test case that has registered nothing, on a backend without state.\<close>

definition fresh :: "unit test" where
  "fresh = \<lparr>cleanups = [], cleanup_waits = [], world = (), trace = []\<rparr>"



text \<open>
  A small cloud: the backend is the list of the ids that exist. Creation answers with
  a body and stores the id, every \<^verbatim>\<open>delete...\<close> is the delete of section 6, and every
  other operation succeeds. Volumes and key pairs echo the requested name; networks
  are answered under a name of the backend's own, images in the status \<^verbatim>\<open>saving\<close>.
  The blocks of the subnets that exist are in the list as well. The security group
  rules for IPv6 exist already; the others are created as requested.
\<close>

definition cloud :: "string list extern" where
  "cloud name args kw w =
     (if name = ''create_keypair''
      then (case map_of kw ''name'' of
              Some (VStr n) \<Rightarrow> (Inr (VDict [(''keypair'', VDict [(''name'', VStr n)])]), n # w)
            | _ \<Rightarrow> (Inl (TypeError ''name''), w))
      else if name = ''create_floating_ip''
      then (Inr (VDict [(''floating_ip'',
                   VDict [(''id'', VStr ''fip-1''), (''ip'', VStr ''172.24.4.9'')])]), ''fip-1'' # w)
      else if name = ''compute.create_test_server''
      then (Inr (VDict [(''id'', VStr ''srv-1'')]), ''srv-1'' # w)
      else if name = ''show_server''
      then (Inr (VDict [(''server'', VDict [(''id'', VStr ''srv-1''), (''status'', VStr ''ACTIVE'')])]), w)
      else if name = ''create_volume''
      then (case map_of kw ''display_name'' of
              Some n \<Rightarrow> (Inr (VDict [(''volume'',
                             VDict [(''id'', VStr ''vol-1''), (''display_name'', n)])]), ''vol-1'' # w)
            | None \<Rightarrow> (Inl (TypeError ''display_name''), w))
      else if name = ''show_volume''
      then (Inr (VDict [(''volume'', VDict [(''id'', VStr ''vol-1''), (''status'', VStr ''available'')])]), w)
      else if name = ''create_image''
      then (Inr (VDict [(''image'', VDict [(''id'', VStr ''img-1''), (''status'', VStr ''saving'')])]),
            ''img-1'' # w)
      else if name = ''create_network''
      then (Inr (VDict [(''network'',
                   VDict [(''id'', VStr ''net-1''), (''name'', VStr ''unnamed'')])]), ''net-1'' # w)
      else if name = ''list_subnets''
      then (Inr (VDict [(''subnets'',
                   VList (if cidr_kw kw \<in> set w then [VDict [(''cidr'', VStr (cidr_kw kw))]] else []))]), w)
      else if name = ''create_subnet''
      then (Inr (VDict [(''subnet'',
                   VDict [(''id'', VStr ''subnet-1''), (''cidr'', VStr (cidr_kw kw))])]), cidr_kw kw # w)
      else if name = ''create_security_group_rule''
      then (if map_of kw ''ethertype'' = Some (VStr ''IPv6'')
            then (Inl (Conflict ''Security group rule already exists. Rule id is 7''), w)
            else (Inr (VDict [(''security_group_rule'',
                         VDict ((''id'', VStr ''rule'') # kw))]), w))
      else if prefix ''delete'' name then resource_delete name args kw w
      else (Inr VNone, w))"

definition start :: "string list test" where
  "start = \<lparr>cleanups = [], cleanup_waits = [], world = [], trace = []\<rparr>"

definition conf0 :: config where
  "conf0 = \<lparr>class_name = ''TestScenario'',
            rand_name = (\<lambda>p. p @ ''-1''),
            client_tenant_id = (\<lambda>c. VStr ''tenant-1''),
            floating_network_name = VStr ''public'',
            tenant_blocks_v4 = [''10.100.0.0/28'', ''10.100.0.16/28'', ''10.100.0.32/28'',
                                ''10.100.0.48/28'', ''10.100.0.64/28''],
            tenant_blocks_v6 = [],
            ping_timeout = 3,
            power_timeout = 3\<rparr>"

text \<open>
  Scenario 3 of the specification: the first three of the five candidate blocks are in
  use. A network of the tenant, as \<^verbatim>\<open>_create_network\<close> returns it.
\<close>

definition three_in_use :: "string list test" where
  "three_in_use = setUp (start\<lparr>world := [''10.100.0.0/28'', ''10.100.0.16/28'', ''10.100.0.32/28'']\<rparr>)"

definition net1 :: pyval where
  "net1 = VObj ''DeletableNetwork'' [(''id'', VStr ''net-1''), (''tenant_id'', VStr ''tenant-1'')]"

text \<open>
  A backend that shows no subnet to the tenant and refuses every block as overlapping;
  it refuses every security group rule for the quota.
\<close>

definition crowded :: "unit extern" where
  "crowded name args kw w =
     (if name = ''list_subnets'' then (Inr (VDict [(''subnets'', VList [])]), w)
      else if name = ''create_subnet''
      then (Inl (Conflict ''Requested subnet overlaps with another subnet''), w)
      else if name = ''create_security_group_rule''
      then (Inl (Conflict ''Quota exceeded for resources''), w)
      else (Inr VNone, w))"

definition secgroup1 :: pyval where
  "secgroup1 = VObj ''DeletableSecurityGroup'' [(''id'', VStr ''sg-1''), (''tenant_id'', VStr ''tenant-1'')]"

text \<open>
  A backend with a clock of seconds as its state: a ping takes a second and reaches the
  address \<^verbatim>\<open>10.0.0.1\<close> only; the node is powered on from the second second on.
\<close>

definition seconds :: "int \<Rightarrow> int" where
  "seconds w = w"

definition sleep_seconds :: "int \<Rightarrow> int \<Rightarrow> int" where
  "sleep_seconds d w = w + d"

definition timed :: "int extern" where
  "timed name args kw w =
     (if name = ''subprocess.Popen''
      then (Inr (VInt (if args = [VList [VStr ''ping'', VStr ''-c1'', VStr ''-w1'', VStr ''10.0.0.1'']]
                       then 0 else 1)), w + 1)
      else if name = ''show_node''
      then (Inr (VDict [(''power_state'', VStr (if 2 \<le> w then ''power on'' else ''power off''))]), w)
      else (Inr VNone, w))"

definition midnight :: "int test" where
  "midnight = \<lparr>cleanups = [], cleanup_waits = [], world = 0, trace = []\<rparr>"

text \<open>
  The backend \<^verbatim>\<open>cloud\<close> with an image service that answers a creation in the status
  \<^verbatim>\<open>queued\<close> and describes the image \<^verbatim>\<open>snap\<close> as backed by a volume snapshot; the two
  functions read the image id out of a response and decode the block device mapping.
\<close>

definition stocked :: "string list extern" where
  "stocked name args kw w =
     (if name = ''create_image''
      then (Inr (VDict [(''image'', VDict [(''id'', VStr ''img-1''), (''status'', VStr ''queued'')])]),
            ''img-1'' # w)
      else if name = ''get_image_meta''
      then (Inr (VDict [(''name'', VStr ''snap''),
                        (''properties'', VDict [(''block_device_mapping'', VStr ''[snapshot_id: snap-1]'')])]), w)
      else cloud name args kw w)"

definition location0 :: "pyval \<Rightarrow> exn + pyval" where
  "location0 response = Inr (VStr ''img-1'')"

definition loads0 :: "pyval \<Rightarrow> exn + pyval" where
  "loads0 v = (if v = VStr ''[snapshot_id: snap-1]''
               then Inr (VList [VDict [(''snapshot_id'', VStr ''snap-1'')]])
               else Inl (OtherError ''ValueError'' ''No JSON object could be decoded''))"

section \<open>Reasoning about what a factory registers\<close>

text \<open>
  An action keeps the registry when it changes neither the cleanup stack nor the wait
  queue; \<^verbatim>\<open>post R\<close> reads a result as its value, the stack and the queue.
\<close>

definition keeps_registry :: "('w, 'a) action \<Rightarrow> bool" where
  "keeps_registry m =
     (\<forall>st. cleanups (snd (m st)) = cleanups st \<and> cleanup_waits (snd (m st)) = cleanup_waits st)"

definition post :: "('x \<Rightarrow> cleanup_entry list \<Rightarrow> kwargs list \<Rightarrow> bool) \<Rightarrow> 'x \<times> 'w test \<Rightarrow> bool" where
  "post R r = R (fst r) (cleanups (snd r)) (cleanup_waits (snd r))"

named_theorems keeps

lemma fired_cleanups_append [simp]: "fired_cleanups (xs @ ys) = fired_cleanups xs @ fired_cleanups ys"
  by (induction xs rule: fired_cleanups.induct) auto

lemma fired_append [simp]: "fired (xs @ ys) = fired xs @ fired ys"
  by (simp add: fired_def)

lemma fired_simps [simp]:
  "fired [] = []"
  "fired (CleanupFired e # tr) = CleanupFired e # fired tr"
  "fired (WaiterCalled w k # tr) = WaiterCalled w k # fired tr"
  "fired (ExtCalled n a k r # tr) = fired tr"
  by (simp_all add: fired_def)

lemma register_fields:
  "cleanups (register r st) = cleanups st @ [cleanup_of r]"
  "cleanup_waits (register r st) = cleanup_waits st @ wait_dicts_of r"
  "trace (register r st) = trace st"
  "world (register r st) = world st"
  by (cases r; simp add: addCleanup_def addCleanup_with_wait_def Let_def)+

lemma register_all_fields:
  "cleanups (register_all regs st) = cleanups st @ map cleanup_of regs"
  "cleanup_waits (register_all regs st) = cleanup_waits st @ concat (map wait_dicts_of regs)"
  "trace (register_all regs st) = trace st"
  "world (register_all regs st) = world st"
  unfolding register_all_def
  by (induction regs arbitrary: st) (simp_all add: register_fields)

lemma client_call_fields:
  "cleanups (snd (client_call ext n a k st)) = cleanups st"
  "cleanup_waits (snd (client_call ext n a k st)) = cleanup_waits st"
  "\<exists>r. trace (snd (client_call ext n a k st)) = trace st @ [ExtCalled n a k r]"
  by (auto simp: client_call_def split: prod.splits)

lemma outcome_snd [simp]: "snd (outcome r) = snd r"
  by (auto simp: outcome_def split: prod.splits sum.splits)

lemma invoke_frame:
  "cleanups (snd (invoke ext f args kw st)) = cleanups st \<and>
   cleanup_waits (snd (invoke ext f args kw st)) = cleanup_waits st \<and>
   (\<exists>tr. trace (snd (invoke ext f args kw st)) = trace st @ tr \<and> fired tr = [] \<and> fired_cleanups tr = [])"
  "cleanups (snd (call_value ext v args kw st)) = cleanups st \<and>
   cleanup_waits (snd (call_value ext v args kw st)) = cleanup_waits st \<and>
   (\<exists>tr. trace (snd (call_value ext v args kw st)) = trace st @ tr \<and> fired tr = [] \<and> fired_cleanups tr = [])"
  "cleanups (snd (delete_wrapper ext v args kw st)) = cleanups st \<and>
   cleanup_waits (snd (delete_wrapper ext v args kw st)) = cleanup_waits st \<and>
   (\<exists>tr. trace (snd (delete_wrapper ext v args kw st)) = trace st @ tr \<and> fired tr = [] \<and> fired_cleanups tr = [])"
proof (induction ext f args kw st and ext v args kw st and ext v args kw st
       rule: invoke_call_value_delete_wrapper.induct)
  case (1 ext n args kw st)
  then show ?case using client_call_fields[of ext n args kw st] by (auto simp: fired_def)
next
  case (2 ext self m args kw st)
  then show ?case using client_call_fields[of ext m "self # args" kw st] by (auto simp: fired_def)
next
  case (3 ext kw st)
  then show ?case
    by (cases "map_of kw ''delete_thing''") (simp_all del: delete_wrapper.simps call_value.simps)
next
  case (4 ext delete_thing args kw st)
  then show ?case
    by (cases "map_of kw ''delete_thing''") (simp_all del: delete_wrapper.simps call_value.simps)
next
  case (5 ext v args kw st)
  then show ?case by (cases v) (auto)
next
  case (6 ext delete_thing args kw st)
  then show ?case by (auto split: prod.splits option.splits exn.splits)
qed

lemma map_of_delete_same [simp]: "map_of (AList.delete k d) k = None"
  by (induction d) auto

lemma wait_loop_frame:
  "wait_loop ext ws st = (r, ws', st') \<Longrightarrow>
     cleanups st' = cleanups st \<and> cleanup_waits st' = cleanup_waits st \<and>
     fired_cleanups (trace st') = fired_cleanups (trace st) \<and> spent ws' \<and>
     (\<exists>n\<le>length ws. fired (trace st') = fired (trace st) @ map pop_call (take n ws) \<and>
         (r = None \<longrightarrow> n = length ws))"
proof (induction ws arbitrary: st r ws' st')
  case Nil
  then show ?case by (simp add: spent_def)
next
  case (Cons d ws)
  show ?case
  proof (cases "map_of d ''waiter_callable''")
    case None
    with Cons.prems show ?thesis by (auto simp: spent_def)
  next
    case (Some w)
    let ?d' = "AList.delete ''waiter_callable'' d"
    let ?st1 = "st\<lparr>trace := trace st @ [WaiterCalled w ?d']\<rparr>"
    obtain r1 st2 where cv: "call_value ext w [] ?d' ?st1 = (r1, st2)" by (cases "call_value ext w [] ?d' ?st1")
    from invoke_frame(2)[of ext w "[]" ?d' ?st1] cv
    obtain tr where fr: "cleanups st2 = cleanups st" "cleanup_waits st2 = cleanup_waits st"
      "trace st2 = trace st @ [WaiterCalled w ?d'] @ tr" "fired tr = []" "fired_cleanups tr = []"
      by auto
    show ?thesis
    proof (cases r1)
      case None
      obtain r3 rest' st3 where wl: "wait_loop ext ws st2 = (r3, rest', st3)" by (cases "wait_loop ext ws st2")
      from Cons.IH[OF wl] obtain n where n: "cleanups st3 = cleanups st2" "cleanup_waits st3 = cleanup_waits st2"
        "fired_cleanups (trace st3) = fired_cleanups (trace st2)" "n \<le> length ws"
        "fired (trace st3) = fired (trace st2) @ map pop_call (take n ws)" "r3 = None \<longrightarrow> n = length ws"
        by auto
      from Cons.prems Some cv None wl have eq: "r = r3" "ws' = ?d' # rest'" "st' = st3"
        by (auto simp: Let_def)
      have "fired (trace st') = fired (trace st) @ map pop_call (take (Suc n) (d # ws))"
        using n fr eq Some by (simp add: pop_call_def)
      moreover have "Suc n \<le> length (d # ws)" using n by simp
      moreover have "r = None \<longrightarrow> Suc n = length (d # ws)" using n eq by simp
      ultimately have "\<exists>n\<le>length (d # ws). fired (trace st') = fired (trace st) @ map pop_call (take n (d # ws)) \<and>
         (r = None \<longrightarrow> n = length (d # ws))" by blast
      then show ?thesis using n fr eq by (simp add: spent_def)
    next
      case (Some e)
      from Cons.prems \<open>map_of d ''waiter_callable'' = Some w\<close> cv Some
      have eq: "r = Some e" "ws' = ?d' # ws" "st' = st2" by (auto simp: Let_def)
      have "fired (trace st') = fired (trace st) @ map pop_call (take (Suc 0) (d # ws))"
        using fr eq \<open>map_of d ''waiter_callable'' = Some w\<close> by (simp add: pop_call_def)
      moreover have "Suc 0 \<le> length (d # ws)" by simp
      ultimately have "\<exists>n\<le>length (d # ws). fired (trace st') = fired (trace st) @ map pop_call (take n (d # ws)) \<and>
         (r = None \<longrightarrow> n = length (d # ws))" using eq by blast
      then show ?thesis using fr eq by (simp add: spent_def)
    qed
  qed
qed


lemma fire_cleanup_frame:
  "fire ext (Cleanup f args kw) st = (r, st') \<Longrightarrow>
     cleanups st' = cleanups st \<and> cleanup_waits st' = cleanup_waits st \<and>
     fired (trace st') = fired (trace st) @ [CleanupFired (Cleanup f args kw)] \<and>
     fired_cleanups (trace st') = fired_cleanups (trace st) @ [Cleanup f args kw]"
  using invoke_frame(1)[of ext f args kw "st\<lparr>trace := trace st @ [CleanupFired (Cleanup f args kw)]\<rparr>"]
  by auto

lemma fire_fired_cleanups:
  "fired_cleanups (trace (snd (fire ext e st))) = fired_cleanups (trace st) @ [e] \<and>
   cleanups (snd (fire ext e st)) = cleanups st"
proof (cases e)
  case (Cleanup f args kw)
  then show ?thesis using fire_cleanup_frame[of ext f args kw st] by (cases "fire ext (Cleanup f args kw) st") auto
next
  case WaitForCleanups
  let ?st1 = "st\<lparr>trace := trace st @ [CleanupFired WaitForCleanups]\<rparr>"
  obtain r ws' st' where wl: "wait_loop ext (cleanup_waits ?st1) ?st1 = (r, ws', st')"
    by (cases "wait_loop ext (cleanup_waits ?st1) ?st1")
  from wait_loop_frame[OF wl] show ?thesis using WaitForCleanups wl
    by (auto simp: wait_for_cleanups_def)
qed

lemma run_entries_fired_cleanups:
  "fired_cleanups (trace (snd (run_entries ext es st))) = fired_cleanups (trace st) @ es"
proof (induction es arbitrary: st)
  case Nil
  then show ?case by simp
next
  case (Cons e es)
  show ?case using Cons.IH[of "snd (fire ext e st)"] fire_fired_cleanups[of ext e st]
    by (auto split: prod.splits)
qed

text \<open>
  Claim C1. For every sequence of registrations made after \<^verbatim>\<open>setUp\<close> (plain ones and the
  cleanup part of \<^verbatim>\<open>addCleanup_with_wait\<close>), the drain fires their cleanup entries in
  strict reverse order of registration; then comes the hook that \<^verbatim>\<open>setUp\<close> registered,
  then what the base class had registered before, newest first.
\<close>

theorem cleanups_drain_lifo:
  "fired_cleanups (trace (snd (doCleanups ext (register_all regs (setUp st0))))) =
     fired_cleanups (trace st0) @ rev (map cleanup_of regs) @ WaitForCleanups # rev (cleanups st0)"
  by (simp add: doCleanups_def run_entries_fired_cleanups register_all_fields setUp_def addCleanup_def rev_map)









lemma delete_wrapper_store:
  "fst (delete_wrapper resource_delete (VCallable (Func name)) [VStr i] [] st) = None"
  by (auto simp: client_call_def outcome_def resource_delete_def split: prod.splits)

lemma delete_repeatedly_store:
  "fst (delete_repeatedly resource_delete (VCallable (Func name)) [VStr i] [] n st) = replicate n None"
proof (induction n arbitrary: st)
  case 0
  then show ?case by simp
next
  case (Suc n)
  show ?case
    using Suc.IH[of "snd (delete_wrapper resource_delete (VCallable (Func name)) [VStr i] [] st)"]
      delete_wrapper_store[of name i st]
    by (simp add: split_beta del: delete_wrapper.simps)
qed

text \<open>
  Claim C3. \<^verbatim>\<open>delete_wrapper\<close> invokes the operation once, with the arguments given. It
  returns normally exactly when the operation returns normally or raises \<^verbatim>\<open>NotFound\<close>;
  any other exception reaches the caller as it was raised. On a backend whose delete
  signals \<^verbatim>\<open>NotFound\<close> for a missing id, deleting the same id through the wrapper any
  number of times never raises.
\<close>

theorem delete_wrapper_contract:
  "(fst (delete_wrapper ext delete_thing args kw st) = None) =
     (fst (call_value ext delete_thing args kw st) = None \<or>
      (\<exists>m. fst (call_value ext delete_thing args kw st) = Some (NotFound m))) \<and>
   (fst (delete_wrapper ext delete_thing args kw st) = None \<or>
    fst (delete_wrapper ext delete_thing args kw st) = fst (call_value ext delete_thing args kw st)) \<and>
   snd (delete_wrapper ext delete_thing args kw st) = snd (call_value ext delete_thing args kw st) \<and>
   fst (delete_repeatedly resource_delete (VCallable (Func name)) [VStr i] [] n st') = replicate n None"
proof -
  obtain r s where cv: "call_value ext delete_thing args kw st = (r, s)"
    by (cases "call_value ext delete_thing args kw st")
  show ?thesis using cv delete_repeatedly_store[of name i n st']
    by (auto simp del: call_value.simps split: option.splits exn.splits)
qed


subsection \<open>Rules for the registry along a factory\<close>

lemma keeps_lift [keeps]: "keeps_registry (lift r)"
  by (simp add: keeps_registry_def lift_def)

lemma keeps_ret [keeps]: "keeps_registry (ret x)"
  by (simp add: keeps_registry_def ret_def)

lemma keeps_client_call [keeps]: "keeps_registry (client_call ext n a k)"
  by (simp add: keeps_registry_def client_call_fields)

lemma keeps_method_call [keeps]: "keeps_registry (method_call ext obj m a k)"
  by (simp add: method_call_def keeps_client_call)

lemma keepsD:
  "keeps_registry m \<Longrightarrow> m st = (r, st') \<Longrightarrow>
     cleanups st' = cleanups st \<and> cleanup_waits st' = cleanup_waits st"
  unfolding keeps_registry_def by (metis snd_conv)

lemma keeps_bind [keeps]:
  assumes "keeps_registry m" and "\<And>x. keeps_registry (f x)"
  shows "keeps_registry (bind_res m f)"
  unfolding keeps_registry_def
proof
  fix st
  obtain r st1 where m: "m st = (r, st1)" by (cases "m st")
  note k1 = keepsD[OF assms(1) m]
  show "cleanups (snd (bind_res m f st)) = cleanups st \<and>
        cleanup_waits (snd (bind_res m f st)) = cleanup_waits st"
  proof (cases r)
    case (Inl e)
    then show ?thesis using m k1 by (simp add: bind_res_def)
  next
    case (Inr x)
    obtain r2 st2 where f: "f x st1 = (r2, st2)" by (cases "f x st1")
    from keepsD[OF assms(2) f] k1 Inr m f show ?thesis by (simp add: bind_res_def)
  qed
qed

lemma keeps_if [keeps]:
  "keeps_registry a \<Longrightarrow> keeps_registry b \<Longrightarrow> keeps_registry (if c then a else b)"
  by simp

lemma post_keep:
  assumes "keeps_registry m"
    and "\<And>e. R (Inl e) (cleanups st) (cleanup_waits st)"
    and "\<And>x st1. cleanups st1 = cleanups st \<Longrightarrow> cleanup_waits st1 = cleanup_waits st \<Longrightarrow>
           post R (f x st1)"
  shows "post R (bind_res m f st)"
proof (cases "m st")
  case (Pair r st1)
  from keepsD[OF assms(1) Pair]
  have k: "cleanups st1 = cleanups st" "cleanup_waits st1 = cleanup_waits st" by auto
  show ?thesis
  proof (cases r)
    case (Inl e)
    then show ?thesis using Pair assms(2)[of e] k by (simp add: bind_res_def post_def)
  next
    case (Inr x)
    then show ?thesis using Pair assms(3)[OF k] by (simp add: bind_res_def)
  qed
qed

lemma post_lift:
  assumes "\<And>e. r = Inl e \<Longrightarrow> R (Inl e) (cleanups st) (cleanup_waits st)"
    and "\<And>x. r = Inr x \<Longrightarrow> post R (f x st)"
  shows "post R (bind_res (lift r) f st)"
  using assms by (cases r) (simp_all add: bind_res_def lift_def post_def)

lemma post_add:
  assumes "\<And>st1. cleanups st1 = cleanups st @ [e] \<Longrightarrow> cleanup_waits st1 = cleanup_waits st \<Longrightarrow>
             post R (f () st1)"
  shows "post R (bind_res (addCleanupA e) f st)"
  using assms[of "addCleanup e st"] by (simp add: bind_res_def addCleanupA_def addCleanup_def)

lemma post_with_wait:
  assumes "\<And>st1. cleanups st1 = cleanups st @ [Cleanup c args []] \<Longrightarrow>
      cleanup_waits st1 = cleanup_waits st @
         [if truthy client
          then AList.update ''client'' client (AList.update p i [(''waiter_callable'', w)])
          else AList.update p i [(''waiter_callable'', w)]] \<Longrightarrow> post R (f () st1)"
  shows "post R (bind_res (\<lambda>st. (Inr (), addCleanup_with_wait w i p c (Some args) None client st)) f st)"
proof -
  let ?st1 = "addCleanup_with_wait w i p c (Some args) None client st"
  have "cleanups ?st1 = cleanups st @ [Cleanup c args []]"
    by (simp add: addCleanup_with_wait_def addCleanup_def Let_def)
  moreover have "cleanup_waits ?st1 = cleanup_waits st @
         [if truthy client
          then AList.update ''client'' client (AList.update p i [(''waiter_callable'', w)])
          else AList.update p i [(''waiter_callable'', w)]]"
    by (simp add: addCleanup_with_wait_def addCleanup_def Let_def)
  ultimately have "post R (f () ?st1)" by (rule assms)
  then show ?thesis by (simp add: bind_res_def)
qed

lemma post_tail:
  assumes "keeps_registry m" and "\<And>x. R x (cleanups st) (cleanup_waits st)"
  shows "post R (m st)"
  using assms unfolding keeps_registry_def post_def by simp

lemma post_ret: "R (Inr x) (cleanups st) (cleanup_waits st) \<Longrightarrow> post R (ret x st)"
  by (simp add: post_def ret_def)

lemma post_if:
  "(c \<Longrightarrow> post R (a st)) \<Longrightarrow> (\<not> c \<Longrightarrow> post R (b st)) \<Longrightarrow> post R ((if c then a else b) st)"
  by simp

lemma post_any:
  assumes "\<And>e. fst (m st) = Inl e \<Longrightarrow> R (Inl e) (cleanups (snd (m st))) (cleanup_waits (snd (m st)))"
    and "\<And>x. fst (m st) = Inr x \<Longrightarrow> post R (f x (snd (m st)))"
  shows "post R (bind_res m f st)"
  using assms by (cases "m st"; cases "fst (m st)") (auto simp: bind_res_def post_def)

lemma bind_assoc: "bind_res (bind_res m g) f = bind_res m (\<lambda>x. bind_res (g x) f)"
  by (rule ext) (simp add: bind_res_def split: prod.splits sum.splits)

lemma bind_ret: "bind_res (ret x) f = f x"
  by (rule ext) (simp add: bind_res_def ret_def)

lemma bind_if: "bind_res (if c then a else b) f = (if c then bind_res a f else bind_res b f)"
  by simp


subsection \<open>What each factory registers\<close>

lemma create_volume_post:
  "post (\<lambda>r cs ws. ws = cleanup_waits st \<and>
      ((cs = cleanups st \<and> (\<exists>e. r = Inl e)) \<or>
       (\<exists>i. cs = cleanups st @
          [Cleanup (Method (VClient ''volumes_client'') ''wait_for_resource_deletion'') [i] [],
           Cleanup DeleteWrapper [VCallable (Method (VClient ''volumes_client'') ''delete_volume''), i] []])))
     (create_volume conf ext size' name snapshot_id imageRef volume_type st)"
  unfolding create_volume_def Let_def
  apply (rule post_keep, (intro keeps)[1], (simp; fail))
  apply (rule post_keep, (intro keeps)[1], (simp; fail))
  apply (rule post_keep, (intro keeps)[1], (simp; fail))
  apply (rule post_add)
  apply (rule post_add)
  apply (rule post_tail, (intro keeps)[1])
  apply simp
  done




lemma create_network_post:
  "post (\<lambda>r cs ws. ws = cleanup_waits st \<and>
      ((cs = cleanups st \<and> (\<exists>e. r = Inl e)) \<or>
       (\<exists>network. r = Inr network \<and>
          cs = cleanups st @ [Cleanup DeleteWrapper [VCallable (Method network ''delete'')] []])))
     (create_network conf ext client networks_client routers_client tenant_id namestart st)"
  unfolding create_network_def Let_def
  apply (rule post_keep, (intro keeps)[1], (simp; fail))
  apply (rule post_keep, (intro keeps)[1], (simp; fail))
  apply (rule post_keep, (intro keeps)[1], (simp; fail))
  apply (rule post_add)
  apply (rule post_ret)
  apply simp
  done


lemma create_server_snapshot_post:
  "post (\<lambda>r cs ws.
      (cs = cleanups st \<and> ws = cleanup_waits st \<and> (\<exists>e. r = Inl e)) \<or>
      (\<exists>img.
         ws = cleanup_waits st @
           [[(''waiter_callable'', VCallable (Method (VClient ''image_client'') ''wait_for_resource_deletion'')),
             (''id'', img)]] \<and>
         (cs = cleanups st @
            [Cleanup DeleteWrapper [VCallable (Method (VClient ''image_client'') ''delete_image''), img] []] \<or>
          (\<exists>s. cs = cleanups st @
            [Cleanup DeleteWrapper [VCallable (Method (VClient ''image_client'') ''delete_image''), img] [],
             Cleanup (Method (VClient ''snapshots_client'') ''wait_for_resource_deletion'') [s] [],
             Cleanup DeleteWrapper
               [VCallable (Method (VClient ''snapshots_client'') ''delete_snapshot''), s] []]))))
     (create_server_snapshot conf ext location_id json_loads server name st)"
  unfolding create_server_snapshot_def Let_def bind_assoc bind_if bind_ret
  apply (rule post_keep, (intro keeps)[1], (simp; fail))
  apply (rule post_keep, (intro keeps)[1], (simp; fail))
  apply (rule post_keep, (intro keeps)[1], (simp; fail))
  apply (rule post_keep, (intro keeps)[1], (simp; fail))
  apply (rule post_keep, (intro keeps)[1], (simp; fail))
  apply (rule post_with_wait)
  apply (rule post_keep, (intro keeps)[1], (simp; fail))
  apply (rule post_keep, (intro keeps)[1], (simp; fail))
  apply (rule post_if)
   apply (rule post_keep, (intro keeps)[1], (simp; fail))
   apply (rule post_keep, (intro keeps)[1], (simp; fail))
   apply (rule post_if)
    apply (rule post_keep, (intro keeps)[1], (simp; fail))
    apply (rule post_add)
    apply (rule post_add)
    apply (rule post_tail, (intro keeps)[1])
    apply (simp; fail)
   apply (rule post_tail, (intro keeps)[1])
   apply (simp; fail)
  apply (rule post_tail, (intro keeps)[1])
  apply (simp; fail)
  done

subsection \<open>What the drain does with the entries of a factory\<close>

lemma wait_loop_extends:
  "\<exists>tr. trace (snd (snd (wait_loop ext ws st))) = trace st @ tr"
proof (induction ws arbitrary: st)
  case Nil
  then show ?case by simp
next
  case (Cons d ws)
  show ?case
  proof (cases "map_of d ''waiter_callable''")
    case None
    then show ?thesis by simp
  next
    case (Some w)
    let ?d' = "AList.delete ''waiter_callable'' d"
    let ?st1 = "st\<lparr>trace := trace st @ [WaiterCalled w ?d']\<rparr>"
    obtain r1 st2 where cv: "call_value ext w [] ?d' ?st1 = (r1, st2)"
      by (cases "call_value ext w [] ?d' ?st1")
    from invoke_frame(2)[of ext w "[]" ?d' ?st1] cv
    obtain tr where tr: "trace st2 = trace st @ [WaiterCalled w ?d'] @ tr" by auto
    from Cons.IH[of st2] obtain tr2 where tr2: "trace (snd (snd (wait_loop ext ws st2))) = trace st2 @ tr2"
      by auto
    show ?thesis using Some cv tr tr2
      by (cases r1) (auto simp: Let_def split: prod.splits)
  qed
qed

lemma fire_extends: "\<exists>tr. trace (snd (fire ext e st)) = trace st @ tr"
proof (cases e)
  case (Cleanup f args kw)
  then show ?thesis
    using invoke_frame(1)[of ext f args kw "st\<lparr>trace := trace st @ [CleanupFired (Cleanup f args kw)]\<rparr>"]
    by auto
next
  case WaitForCleanups
  let ?st1 = "st\<lparr>trace := trace st @ [CleanupFired WaitForCleanups]\<rparr>"
  from wait_loop_extends[of ext "cleanup_waits ?st1" ?st1] show ?thesis using WaitForCleanups
    by (auto simp: wait_for_cleanups_def split: prod.splits)
qed

lemma run_entries_extends:
  "\<exists>tail. trace (snd (run_entries ext es st)) = trace st @ tail \<and> fired_cleanups tail = es"
proof -
  have ex: "\<exists>tail. trace (snd (run_entries ext es st)) = trace st @ tail" for st
  proof (induction es arbitrary: st)
    case Nil
    then show ?case by simp
  next
    case (Cons e es)
    from fire_extends[of ext e st] obtain t1 where t1: "trace (snd (fire ext e st)) = trace st @ t1" by auto
    from Cons.IH[of "snd (fire ext e st)"] obtain t2 where
      t2: "trace (snd (run_entries ext es (snd (fire ext e st)))) = trace (snd (fire ext e st)) @ t2" by auto
    show ?case using t1 t2 by (auto split: prod.splits)
  qed
  then obtain tail where t: "trace (snd (run_entries ext es st)) = trace st @ tail" by auto
  with run_entries_fired_cleanups[of ext es st] show ?thesis by auto
qed

lemma fire_wrapped_method:
  "\<exists>x. trace (snd (fire ext (Cleanup DeleteWrapper [VCallable (Method c m), i] []) st)) =
         trace st @ [CleanupFired (Cleanup DeleteWrapper [VCallable (Method c m), i] []),
                     ExtCalled m [c, i] [] x] \<and>
       cleanup_waits (snd (fire ext (Cleanup DeleteWrapper [VCallable (Method c m), i] []) st)) =
         cleanup_waits st"
  by (auto simp: client_call_def outcome_def split: prod.splits sum.splits exn.splits)

lemma fire_method:
  "\<exists>x. trace (snd (fire ext (Cleanup (Method c m) args kw) st)) =
         trace st @ [CleanupFired (Cleanup (Method c m) args kw), ExtCalled m (c # args) kw x] \<and>
       cleanup_waits (snd (fire ext (Cleanup (Method c m) args kw) st)) = cleanup_waits st"
  by (auto simp: client_call_def outcome_def split: prod.splits sum.splits)



lemma run_entries_Cons_snd:
  "snd (run_entries ext (e # es) st) = snd (run_entries ext es (snd (fire ext e st)))"
  by (simp split: prod.splits)

lemma drain_pair:
  "\<exists>x1 x2 tail.
     trace (snd (run_entries ext
        (Cleanup DeleteWrapper [VCallable (Method c d), i] [] # Cleanup (Method c w) [i] [] # es) st)) =
       trace st @
        [CleanupFired (Cleanup DeleteWrapper [VCallable (Method c d), i] []),
         ExtCalled d [c, i] [] x1,
         CleanupFired (Cleanup (Method c w) [i] []),
         ExtCalled w [c, i] [] x2] @ tail \<and>
     fired_cleanups tail = es"
proof -
  let ?D = "Cleanup DeleteWrapper [VCallable (Method c d), i] []"
  let ?W = "Cleanup (Method c w) [i] []"
  let ?s1 = "snd (fire ext ?D st)"
  let ?s2 = "snd (fire ext ?W ?s1)"
  from fire_wrapped_method[of ext c d i st] obtain x1 where
    a: "trace ?s1 = trace st @ [CleanupFired ?D, ExtCalled d [c, i] [] x1]" by auto
  from fire_method[of ext c w "[i]" "[]" ?s1] obtain x2 where
    b: "trace ?s2 = trace ?s1 @ [CleanupFired ?W, ExtCalled w [c, i] [] x2]" by auto
  from run_entries_extends[of ext es ?s2] obtain tail where
    t: "trace (snd (run_entries ext es ?s2)) = trace ?s2 @ tail" "fired_cleanups tail = es" by auto
  have "snd (run_entries ext (?D # ?W # es) st) = snd (run_entries ext es ?s2)"
    by (simp only: run_entries_Cons_snd)
  then show ?thesis using a b t by auto
qed



lemma create_volume_registered:
  assumes "method_call ext (VClient ''volumes_client'') ''create_volume'' []
             (volume_kwargs size' (volume_name conf name) snapshot_id imageRef volume_type) st = (Inr r, st1)"
    and "subscript r ''volume'' = Inr v"
    and "subscript v ''id'' = Inr i"
  shows "cleanups (snd (create_volume conf ext size' name snapshot_id imageRef volume_type st)) =
     cleanups st @
       [Cleanup (Method (VClient ''volumes_client'') ''wait_for_resource_deletion'') [i] [],
        Cleanup DeleteWrapper [VCallable (Method (VClient ''volumes_client'') ''delete_volume''), i] []]"
proof -
  have k: "cleanups st1 = cleanups st" using keepsD[OF keeps_method_call assms(1)] by simp
  have "post (\<lambda>r cs ws. cs = cleanups st @
       [Cleanup (Method (VClient ''volumes_client'') ''wait_for_resource_deletion'') [i] [],
        Cleanup DeleteWrapper [VCallable (Method (VClient ''volumes_client'') ''delete_volume''), i] []])
      (create_volume conf ext size' name snapshot_id imageRef volume_type st)"
    unfolding create_volume_def Let_def
    apply (rule post_any, (simp add: assms; fail))
    apply (rule post_lift, (clarsimp simp: assms; fail))
    apply (rule post_lift, (clarsimp simp: assms; fail))
    apply (rule post_add)
    apply (rule post_add)
    apply (rule post_tail, (intro keeps)[1])
    apply (clarsimp simp: assms k)
    done
  then show ?thesis by (simp add: post_def)
qed

lemma image_create_registered:
  assumes "method_call ext (VClient ''image_client'') ''create_image'' []
             (image_params conf name fmt disk_format properties) st = (Inr r, st1)"
    and "subscript r ''image'' = Inr v"
    and "subscript v ''id'' = Inr i"
  shows "cleanups (snd (image_create conf ext name fmt path disk_format properties st)) =
     cleanups st @ [Cleanup (Method (VClient ''image_client'') ''delete_image'') [i] []]"
proof -
  have k: "cleanups st1 = cleanups st" using keepsD[OF keeps_method_call assms(1)] by simp
  have "post (\<lambda>r cs ws. cs = cleanups st @
       [Cleanup (Method (VClient ''image_client'') ''delete_image'') [i] []])
      (image_create conf ext name fmt path disk_format properties st)"
    unfolding image_create_def Let_def
    apply (rule post_any, (simp add: assms; fail))
    apply (rule post_lift, (clarsimp simp: assms; fail))
    apply (rule post_lift, (clarsimp simp: assms; fail))
    apply (rule post_add)
    apply (rule post_tail, (intro keeps)[1])
    apply (clarsimp simp: assms k)
    done
  then show ?thesis by (simp add: post_def)
qed

lemma create_network_registered:
  "cleanups (snd (create_network conf ext client networks_client routers_client tenant_id namestart st)) =
     cleanups st @
       (case fst (create_network conf ext client networks_client routers_client tenant_id namestart st) of
          Inl e \<Rightarrow> []
        | Inr network \<Rightarrow> [Cleanup DeleteWrapper [VCallable (Method network ''delete'')] []])"
  using create_network_post[of st conf ext client networks_client routers_client tenant_id namestart]
  by (auto simp: post_def)

section \<open>The claims about the factories\<close>

text \<open>
  Claim C4, as stated, fails: \<^verbatim>\<open>_create_network\<close> asserts the echoed name before it
  registers the cleanup. On a backend that answers the creation under another name the
  network exists, the validation fails, and the stack holds nothing but the hook of
  \<^verbatim>\<open>setUp\<close>.
\<close>

theorem network_validation_before_registration:
  "fst (create_network conf0 cloud VNone VNone VNone VNone ''network-smoke-'' (setUp start)) =
     Inl (AssertionError []) \<and>
   world (snd (create_network conf0 cloud VNone VNone VNone VNone ''network-smoke-'' (setUp start))) =
     [''net-1''] \<and>
   cleanups (snd (create_network conf0 cloud VNone VNone VNone VNone ''network-smoke-'' (setUp start))) =
     [WaitForCleanups]"
  by (simp add: create_network_def conf0_def cloud_def start_def setUp_def addCleanup_def
      bind_res_def method_call_def client_call_def lift_def bind_sum_def assertEqual_def Let_def)

text \<open>
  Claim C4, amended. \<^verbatim>\<open>create_volume\<close> and \<^verbatim>\<open>_image_create\<close> register the cleanup as
  soon as the creation has answered and the identifier is read: whatever validation or
  polling does afterwards, the entries are on the stack. \<^verbatim>\<open>_create_network\<close> registers
  its cleanup last, so it is on the stack exactly when the factory returns a network.
\<close>

theorem registration_relative_to_validation:
  "(method_call ext (VClient ''volumes_client'') ''create_volume'' []
       (volume_kwargs size' (volume_name conf name) snapshot_id imageRef volume_type) st = (Inr r, st1) \<longrightarrow>
    subscript r ''volume'' = Inr v \<longrightarrow> subscript v ''id'' = Inr i \<longrightarrow>
    cleanups (snd (create_volume conf ext size' name snapshot_id imageRef volume_type st)) =
      cleanups st @
       [Cleanup (Method (VClient ''volumes_client'') ''wait_for_resource_deletion'') [i] [],
        Cleanup DeleteWrapper [VCallable (Method (VClient ''volumes_client'') ''delete_volume''), i] []]) \<and>
   (method_call ext (VClient ''image_client'') ''create_image'' []
       (image_params conf iname fmt disk_format properties) st = (Inr r', st1') \<longrightarrow>
    subscript r' ''image'' = Inr v' \<longrightarrow> subscript v' ''id'' = Inr i' \<longrightarrow>
    cleanups (snd (image_create conf ext iname fmt path disk_format properties st)) =
      cleanups st @ [Cleanup (Method (VClient ''image_client'') ''delete_image'') [i'] []]) \<and>
   cleanups (snd (create_network conf ext client networks_client routers_client tenant_id namestart st)) =
     cleanups st @
       (case fst (create_network conf ext client networks_client routers_client tenant_id namestart st) of
          Inl e \<Rightarrow> []
        | Inr network \<Rightarrow> [Cleanup DeleteWrapper [VCallable (Method network ''delete'')] []])"
  using create_volume_registered[of ext size' conf name snapshot_id imageRef volume_type st r st1 v i]
    image_create_registered[of ext conf iname fmt disk_format properties st r' st1' v' i' path]
    create_network_registered[of conf ext client networks_client routers_client tenant_id namestart st]
  by blast

theorem registration_relative_to_validation_witness:
  "fst (image_create conf0 cloud ''scenario-img'' (VStr ''bare'') (VStr ''/img'') VNone VNone (setUp start)) =
     Inl (AssertionError []) \<and>
   cleanups (snd (image_create conf0 cloud ''scenario-img'' (VStr ''bare'') (VStr ''/img'') VNone VNone
                    (setUp start))) =
     cleanups (setUp start) @
       [Cleanup (Method (VClient ''image_client'') ''delete_image'') [VStr ''img-1''] []] \<and>
   cleanups (snd (create_volume conf0 cloud VNone VNone VNone VNone VNone (setUp start))) =
     cleanups (setUp start) @
       [Cleanup (Method (VClient ''volumes_client'') ''wait_for_resource_deletion'') [VStr ''vol-1''] [],
        Cleanup DeleteWrapper
          [VCallable (Method (VClient ''volumes_client'') ''delete_volume''), VStr ''vol-1''] []]"
proof -
  let ?mi = "method_call cloud (VClient ''image_client'') ''create_image'' []
               (image_params conf0 ''scenario-img'' (VStr ''bare'') VNone VNone) (setUp start)"
  let ?vi = "VDict [(''id'', VStr ''img-1''), (''status'', VStr ''saving'')]"
  let ?mv = "method_call cloud (VClient ''volumes_client'') ''create_volume'' []
               (volume_kwargs VNone (volume_name conf0 VNone) VNone VNone VNone) (setUp start)"
  let ?vv = "VDict [(''id'', VStr ''vol-1''), (''display_name'', VStr ''TestScenario-1'')]"
  have i1: "?mi = (Inr (VDict [(''image'', ?vi)]), snd ?mi)"
    by (simp add: method_call_def client_call_def cloud_def prod_eq_iff)
  have i2: "subscript (VDict [(''image'', ?vi)]) ''image'' = Inr ?vi" by simp
  have i3: "subscript ?vi ''id'' = Inr (VStr ''img-1'')" by simp
  have v1: "?mv = (Inr (VDict [(''volume'', ?vv)]), snd ?mv)"
    by (simp add: method_call_def client_call_def cloud_def prod_eq_iff volume_kwargs_def volume_name_def
        conf0_def)
  have v2: "subscript (VDict [(''volume'', ?vv)]) ''volume'' = Inr ?vv" by simp
  have v3: "subscript ?vv ''id'' = Inr (VStr ''vol-1'')" by simp
  have fails: "fst (image_create conf0 cloud ''scenario-img'' (VStr ''bare'') (VStr ''/img'') VNone VNone
                      (setUp start)) = Inl (AssertionError [])"
    by (simp add: image_create_def image_params_def conf0_def cloud_def start_def setUp_def addCleanup_def
        addCleanupA_def bind_res_def method_call_def client_call_def lift_def bind_sum_def assertEqual_def
        Let_def)
  note T = registration_relative_to_validation
  from T[THEN conjunct2, THEN conjunct1, rule_format, OF i1 i2 i3]
    T[THEN conjunct1, rule_format, OF v1 v2 v3] fails
  show ?thesis by simp
qed






text \<open>
  What \<^verbatim>\<open>create_server_snapshot\<close> has registered when it returns: the image in the wait
  queue and its delete on the stack, and on top of it the wait and the delete of the
  volume snapshot exactly when the image it returns names one.
\<close>

lemma create_server_snapshot_branch:
  "post (\<lambda>r cs ws. \<forall>v. r = Inr v \<longrightarrow>
      (\<exists>img.
         ws = cleanup_waits st @
           [[(''waiter_callable'', VCallable (Method (VClient ''image_client'') ''wait_for_resource_deletion'')),
             (''id'', img)]] \<and>
         (snapshot_of json_loads v = Inr None \<longrightarrow>
            cs = cleanups st @
              [Cleanup DeleteWrapper [VCallable (Method (VClient ''image_client'') ''delete_image''), img] []]) \<and>
         (\<forall>s. snapshot_of json_loads v = Inr (Some s) \<longrightarrow>
            cs = cleanups st @
              [Cleanup DeleteWrapper [VCallable (Method (VClient ''image_client'') ''delete_image''), img] [],
               Cleanup (Method (VClient ''snapshots_client'') ''wait_for_resource_deletion'') [s] [],
               Cleanup DeleteWrapper
                 [VCallable (Method (VClient ''snapshots_client'') ''delete_snapshot''), s] []])))
     (create_server_snapshot conf ext location_id json_loads server name st)"
  unfolding create_server_snapshot_def Let_def bind_assoc bind_if bind_ret
  apply (rule post_keep, (intro keeps)[1], (simp; fail))
  apply (rule post_keep, (intro keeps)[1], (simp; fail))
  apply (rule post_keep, (intro keeps)[1], (simp; fail))
  apply (rule post_keep, (intro keeps)[1], (simp; fail))
  apply (rule post_keep, (intro keeps)[1], (simp; fail))
  apply (rule post_with_wait)
  apply (rule post_keep, (intro keeps)[1], (simp; fail))
  apply (rule post_lift, (simp; fail))
  apply (rule post_if)
   apply (rule post_lift, (simp; fail))
   apply (rule post_lift, (simp; fail))
   apply (rule post_if)
    apply (rule post_lift, (simp; fail))
    apply (rule post_add)
    apply (rule post_add)
    apply (rule post_keep, (intro keeps)[1], (simp; fail))
    apply (rule post_keep, (intro keeps)[1], (simp; fail))
    apply (rule post_ret)
    apply (simp add: snapshot_of_def)
   apply (rule post_keep, (intro keeps)[1], (simp; fail))
   apply (rule post_ret)
   apply (simp add: snapshot_of_def)
  apply (rule post_keep, (intro keeps)[1], (simp; fail))
  apply (rule post_ret)
  apply (simp add: snapshot_of_def)
  done


text \<open>
  Claim C10. \<^verbatim>\<open>create_volume\<close> never touches the wait queue. When it returns a volume (and
  whenever it has registered anything), it has left on the stack the wait for the
  deletion as a plain cleanup and, above it, the delete: the drain then calls the delete
  and, immediately after it, the wait, before any entry registered earlier.
  \<^verbatim>\<open>create_server_snapshot\<close>, when it returns an image, has put the image into the wait
  queue; when the image names a volume snapshot it has registered the wait and the
  delete of that snapshot in the same way, above the delete of the image, and otherwise
  the delete of the image only.
\<close>

theorem volume_wait_is_a_plain_cleanup:
  "let X = create_volume conf ext size' name snapshot_id imageRef volume_type st;
       Y = create_server_snapshot conf ext location_id json_loads server sname st;
       vc = VClient ''volumes_client''; sc = VClient ''snapshots_client''; ic = VClient ''image_client''
   in cleanup_waits (snd X) = cleanup_waits st \<and>
      ((\<exists>v. fst X = Inr v) \<or> cleanups (snd X) \<noteq> cleanups st \<longrightarrow>
       (\<exists>i x1 x2 tail.
          cleanups (snd X) = cleanups st @
            [Cleanup (Method vc ''wait_for_resource_deletion'') [i] [],
             Cleanup DeleteWrapper [VCallable (Method vc ''delete_volume''), i] []] \<and>
          trace (snd (doCleanups ext (snd X))) = trace (snd X) @
            [CleanupFired (Cleanup DeleteWrapper [VCallable (Method vc ''delete_volume''), i] []),
             ExtCalled ''delete_volume'' [vc, i] [] x1,
             CleanupFired (Cleanup (Method vc ''wait_for_resource_deletion'') [i] []),
             ExtCalled ''wait_for_resource_deletion'' [vc, i] [] x2] @ tail \<and>
          fired_cleanups tail = rev (cleanups st))) \<and>
      (\<forall>v. fst Y = Inr v \<longrightarrow>
       (\<exists>img.
          cleanup_waits (snd Y) = cleanup_waits st @
            [[(''waiter_callable'', VCallable (Method ic ''wait_for_resource_deletion'')), (''id'', img)]] \<and>
          (snapshot_of json_loads v = Inr None \<longrightarrow>
             cleanups (snd Y) = cleanups st @
               [Cleanup DeleteWrapper [VCallable (Method ic ''delete_image''), img] []]) \<and>
          (\<forall>s. snapshot_of json_loads v = Inr (Some s) \<longrightarrow>
             (\<exists>x1 x2 tail.
                cleanups (snd Y) = cleanups st @
                  [Cleanup DeleteWrapper [VCallable (Method ic ''delete_image''), img] [],
                   Cleanup (Method sc ''wait_for_resource_deletion'') [s] [],
                   Cleanup DeleteWrapper [VCallable (Method sc ''delete_snapshot''), s] []] \<and>
                trace (snd (doCleanups ext (snd Y))) = trace (snd Y) @
                  [CleanupFired (Cleanup DeleteWrapper [VCallable (Method sc ''delete_snapshot''), s] []),
                   ExtCalled ''delete_snapshot'' [sc, s] [] x1,
                   CleanupFired (Cleanup (Method sc ''wait_for_resource_deletion'') [s] []),
                   ExtCalled ''wait_for_resource_deletion'' [sc, s] [] x2] @ tail \<and>
                fired_cleanups tail =
                  Cleanup DeleteWrapper [VCallable (Method ic ''delete_image''), img] [] #
                  rev (cleanups st)))))"
proof -
  let ?X = "create_volume conf ext size' name snapshot_id imageRef volume_type st"
  let ?Y = "create_server_snapshot conf ext location_id json_loads server sname st"
  let ?vc = "VClient ''volumes_client''"
  let ?sc = "VClient ''snapshots_client''"
  let ?ic = "VClient ''image_client''"
  have drain: "\<exists>x1 x2 tail.
      trace (snd (doCleanups ext s)) = trace s @
        [CleanupFired (Cleanup DeleteWrapper [VCallable (Method c d), i] []),
         ExtCalled d [c, i] [] x1,
         CleanupFired (Cleanup (Method c w) [i] []),
         ExtCalled w [c, i] [] x2] @ tail \<and>
      fired_cleanups tail = rev pre"
    if "cleanups s = pre @ [Cleanup (Method c w) [i] [], Cleanup DeleteWrapper [VCallable (Method c d), i] []]"
    for s :: "'a test" and pre c d w i
    using that drain_pair[of ext c d i w "rev pre" "s\<lparr>cleanups := []\<rparr>"]
    by (simp add: doCleanups_def)
  from create_volume_post[of st conf ext size' name snapshot_id imageRef volume_type]
  have vx: "cleanup_waits (snd ?X) = cleanup_waits st \<and>
      ((cleanups (snd ?X) = cleanups st \<and> (\<exists>e. fst ?X = Inl e)) \<or>
       (\<exists>i. cleanups (snd ?X) = cleanups st @
            [Cleanup (Method ?vc ''wait_for_resource_deletion'') [i] [],
             Cleanup DeleteWrapper [VCallable (Method ?vc ''delete_volume''), i] []]))"
    by (simp add: post_def)
  have px: "\<exists>i x1 x2 tail.
          cleanups (snd ?X) = cleanups st @
            [Cleanup (Method ?vc ''wait_for_resource_deletion'') [i] [],
             Cleanup DeleteWrapper [VCallable (Method ?vc ''delete_volume''), i] []] \<and>
          trace (snd (doCleanups ext (snd ?X))) = trace (snd ?X) @
            [CleanupFired (Cleanup DeleteWrapper [VCallable (Method ?vc ''delete_volume''), i] []),
             ExtCalled ''delete_volume'' [?vc, i] [] x1,
             CleanupFired (Cleanup (Method ?vc ''wait_for_resource_deletion'') [i] []),
             ExtCalled ''wait_for_resource_deletion'' [?vc, i] [] x2] @ tail \<and>
          fired_cleanups tail = rev (cleanups st)"
    if h: "(\<exists>v. fst ?X = Inr v) \<or> cleanups (snd ?X) \<noteq> cleanups st"
  proof -
    from vx h obtain i where 2: "cleanups (snd ?X) = cleanups st @
            [Cleanup (Method ?vc ''wait_for_resource_deletion'') [i] [],
             Cleanup DeleteWrapper [VCallable (Method ?vc ''delete_volume''), i] []]" by auto
    from drain[OF 2] 2 show ?thesis by blast
  qed
  have dy: "\<exists>x1 x2 tail.
              trace (snd (doCleanups ext (snd ?Y))) = trace (snd ?Y) @
                [CleanupFired (Cleanup DeleteWrapper [VCallable (Method ?sc ''delete_snapshot''), s] []),
                 ExtCalled ''delete_snapshot'' [?sc, s] [] x1,
                 CleanupFired (Cleanup (Method ?sc ''wait_for_resource_deletion'') [s] []),
                 ExtCalled ''wait_for_resource_deletion'' [?sc, s] [] x2] @ tail \<and>
              fired_cleanups tail =
                Cleanup DeleteWrapper [VCallable (Method ?ic ''delete_image''), img] [] #
                rev (cleanups st)"
    if "cleanups (snd ?Y) = cleanups st @
                [Cleanup DeleteWrapper [VCallable (Method ?ic ''delete_image''), img] [],
                 Cleanup (Method ?sc ''wait_for_resource_deletion'') [s] [],
                 Cleanup DeleteWrapper [VCallable (Method ?sc ''delete_snapshot''), s] []]" for s img
    using drain[of "snd ?Y" "cleanups st @ [Cleanup DeleteWrapper [VCallable (Method ?ic ''delete_image''), img] []]"
        ?sc "''wait_for_resource_deletion''" s "''delete_snapshot''"] that
    by simp
  have py: "\<exists>img.
          cleanup_waits (snd ?Y) = cleanup_waits st @
            [[(''waiter_callable'', VCallable (Method ?ic ''wait_for_resource_deletion'')), (''id'', img)]] \<and>
          (snapshot_of json_loads v = Inr None \<longrightarrow>
             cleanups (snd ?Y) = cleanups st @
               [Cleanup DeleteWrapper [VCallable (Method ?ic ''delete_image''), img] []]) \<and>
          (\<forall>s. snapshot_of json_loads v = Inr (Some s) \<longrightarrow>
             (\<exists>x1 x2 tail.
                cleanups (snd ?Y) = cleanups st @
                  [Cleanup DeleteWrapper [VCallable (Method ?ic ''delete_image''), img] [],
                   Cleanup (Method ?sc ''wait_for_resource_deletion'') [s] [],
                   Cleanup DeleteWrapper [VCallable (Method ?sc ''delete_snapshot''), s] []] \<and>
                trace (snd (doCleanups ext (snd ?Y))) = trace (snd ?Y) @
                  [CleanupFired (Cleanup DeleteWrapper [VCallable (Method ?sc ''delete_snapshot''), s] []),
                   ExtCalled ''delete_snapshot'' [?sc, s] [] x1,
                   CleanupFired (Cleanup (Method ?sc ''wait_for_resource_deletion'') [s] []),
                   ExtCalled ''wait_for_resource_deletion'' [?sc, s] [] x2] @ tail \<and>
                fired_cleanups tail =
                  Cleanup DeleteWrapper [VCallable (Method ?ic ''delete_image''), img] [] #
                  rev (cleanups st)))"
    if h: "fst ?Y = Inr v" for v
  proof -
    from create_server_snapshot_branch[of st json_loads conf ext location_id server sname] h
    obtain img where
      w: "cleanup_waits (snd ?Y) = cleanup_waits st @
            [[(''waiter_callable'', VCallable (Method ?ic ''wait_for_resource_deletion'')), (''id'', img)]]"
      and n: "snapshot_of json_loads v = Inr None \<longrightarrow>
             cleanups (snd ?Y) = cleanups st @
               [Cleanup DeleteWrapper [VCallable (Method ?ic ''delete_image''), img] []]"
      and s: "\<forall>s. snapshot_of json_loads v = Inr (Some s) \<longrightarrow>
             cleanups (snd ?Y) = cleanups st @
                  [Cleanup DeleteWrapper [VCallable (Method ?ic ''delete_image''), img] [],
                   Cleanup (Method ?sc ''wait_for_resource_deletion'') [s] [],
                   Cleanup DeleteWrapper [VCallable (Method ?sc ''delete_snapshot''), s] []]"
      unfolding post_def by blast
    from w n s dy[of img] show ?thesis by blast
  qed
  show ?thesis unfolding Let_def using vx px py by blast
qed

theorem volume_wait_is_a_plain_cleanup_witness:
  "cleanups (snd (create_volume conf0 cloud VNone VNone VNone VNone VNone (setUp start))) =
     [WaitForCleanups,
      Cleanup (Method (VClient ''volumes_client'') ''wait_for_resource_deletion'') [VStr ''vol-1''] [],
      Cleanup DeleteWrapper
        [VCallable (Method (VClient ''volumes_client'') ''delete_volume''), VStr ''vol-1''] []] \<and>
   fired_cleanups (since (snd (create_volume conf0 cloud VNone VNone VNone VNone VNone (setUp start)))
      (snd (doCleanups cloud (snd (create_volume conf0 cloud VNone VNone VNone VNone VNone (setUp start)))))) =
     [Cleanup DeleteWrapper
        [VCallable (Method (VClient ''volumes_client'') ''delete_volume''), VStr ''vol-1''] [],
      Cleanup (Method (VClient ''volumes_client'') ''wait_for_resource_deletion'') [VStr ''vol-1''] [],
      WaitForCleanups] \<and>
   snapshot_of loads0
     (VDict [(''name'', VStr ''snap''),
             (''properties'', VDict [(''block_device_mapping'', VStr ''[snapshot_id: snap-1]'')])]) =
     Inr (Some (VStr ''snap-1'')) \<and>
   cleanup_waits (snd (create_server_snapshot conf0 stocked location0 loads0
      (VDict [(''id'', VStr ''srv-1''), (''name'', VStr ''vm'')]) (VStr ''snap'') (setUp start))) =
     [[(''waiter_callable'', VCallable (Method (VClient ''image_client'') ''wait_for_resource_deletion'')),
       (''id'', VStr ''img-1'')]] \<and>
   cleanups (snd (create_server_snapshot conf0 stocked location0 loads0
      (VDict [(''id'', VStr ''srv-1''), (''name'', VStr ''vm'')]) (VStr ''snap'') (setUp start))) =
     [WaitForCleanups,
      Cleanup DeleteWrapper [VCallable (Method (VClient ''image_client'') ''delete_image''), VStr ''img-1''] [],
      Cleanup (Method (VClient ''snapshots_client'') ''wait_for_resource_deletion'') [VStr ''snap-1''] [],
      Cleanup DeleteWrapper
        [VCallable (Method (VClient ''snapshots_client'') ''delete_snapshot''), VStr ''snap-1''] []] \<and>
   fired_cleanups (since
      (snd (create_server_snapshot conf0 stocked location0 loads0
         (VDict [(''id'', VStr ''srv-1''), (''name'', VStr ''vm'')]) (VStr ''snap'') (setUp start)))
      (snd (doCleanups stocked (snd (create_server_snapshot conf0 stocked location0 loads0
         (VDict [(''id'', VStr ''srv-1''), (''name'', VStr ''vm'')]) (VStr ''snap'') (setUp start)))))) =
     [Cleanup DeleteWrapper
        [VCallable (Method (VClient ''snapshots_client'') ''delete_snapshot''), VStr ''snap-1''] [],
      Cleanup (Method (VClient ''snapshots_client'') ''wait_for_resource_deletion'') [VStr ''snap-1''] [],
      Cleanup DeleteWrapper [VCallable (Method (VClient ''image_client'') ''delete_image''), VStr ''img-1''] [],
      WaitForCleanups]"
proof -
  let ?X = "create_volume conf0 cloud VNone VNone VNone VNone VNone (setUp start)"
  let ?Y = "create_server_snapshot conf0 stocked location0 loads0
      (VDict [(''id'', VStr ''srv-1''), (''name'', VStr ''vm'')]) (VStr ''snap'') (setUp start)"
  let ?meta = "VDict [(''name'', VStr ''snap''),
             (''properties'', VDict [(''block_device_mapping'', VStr ''[snapshot_id: snap-1]'')])]"
  let ?vc = "VClient ''volumes_client''"
  let ?sc = "VClient ''snapshots_client''"
  let ?ic = "VClient ''image_client''"
  note defs = conf0_def cloud_def stocked_def location0_def loads0_def start_def setUp_def
    addCleanup_def addCleanupA_def addCleanup_with_wait_def bind_res_def method_call_def
    client_call_def lift_def ret_def bind_sum_def assertEqual_def Let_def
  have s0: "cleanups (setUp start) = [WaitForCleanups]" "cleanup_waits (setUp start) = []"
    by (simp_all add: setUp_def start_def addCleanup_def)
  have x: "fst ?X = Inr (VDict [(''id'', VStr ''vol-1''), (''status'', VStr ''available'')])"
    by (simp add: create_volume_def volume_kwargs_def volume_name_def defs)
  have xi: "cleanups (snd ?X) ! 1 = Cleanup (Method ?vc ''wait_for_resource_deletion'') [VStr ''vol-1''] []"
    by (simp add: create_volume_def volume_kwargs_def volume_name_def defs)
  have y: "fst ?Y = Inr ?meta"
    by (simp add: create_server_snapshot_def defs)
  have yi: "cleanups (snd ?Y) ! 1 = Cleanup DeleteWrapper [VCallable (Method ?ic ''delete_image''), VStr ''img-1''] []"
    by (simp add: create_server_snapshot_def defs)
  have sn: "snapshot_of loads0 ?meta = Inr (Some (VStr ''snap-1''))"
    by (simp add: snapshot_of_def loads0_def bind_sum_def)
  note T = volume_wait_is_a_plain_cleanup[unfolded Let_def]
  have hx: "(\<exists>v. fst ?X = Inr v) \<or> cleanups (snd ?X) \<noteq> cleanups (setUp start)"
    using x by simp
  from T[where conf=conf0 and ext=cloud and size'=VNone and name=VNone and snapshot_id=VNone
      and imageRef=VNone and volume_type=VNone and st="setUp start",
      THEN conjunct2, THEN conjunct1, rule_format, OF hx]
  obtain i x1 x2 tail where
    a: "cleanups (snd ?X) = cleanups (setUp start) @
            [Cleanup (Method ?vc ''wait_for_resource_deletion'') [i] [],
             Cleanup DeleteWrapper [VCallable (Method ?vc ''delete_volume''), i] []]"
       "trace (snd (doCleanups cloud (snd ?X))) = trace (snd ?X) @
            [CleanupFired (Cleanup DeleteWrapper [VCallable (Method ?vc ''delete_volume''), i] []),
             ExtCalled ''delete_volume'' [?vc, i] [] x1,
             CleanupFired (Cleanup (Method ?vc ''wait_for_resource_deletion'') [i] []),
             ExtCalled ''wait_for_resource_deletion'' [?vc, i] [] x2] @ tail"
       "fired_cleanups tail = rev (cleanups (setUp start))"
    by blast
  from a(1) xi s0 have i: "i = VStr ''vol-1''" by simp
  have A: "cleanups (snd ?X) =
     [WaitForCleanups, Cleanup (Method ?vc ''wait_for_resource_deletion'') [VStr ''vol-1''] [],
      Cleanup DeleteWrapper [VCallable (Method ?vc ''delete_volume''), VStr ''vol-1''] []]"
    using a(1) i s0 by simp
  have B: "fired_cleanups (since (snd ?X) (snd (doCleanups cloud (snd ?X)))) =
     [Cleanup DeleteWrapper [VCallable (Method ?vc ''delete_volume''), VStr ''vol-1''] [],
      Cleanup (Method ?vc ''wait_for_resource_deletion'') [VStr ''vol-1''] [],
      WaitForCleanups]"
    using a(2,3) i s0 by (simp add: since_def)
  from T[where conf=conf0 and ext=stocked and location_id=location0 and json_loads=loads0
      and server="VDict [(''id'', VStr ''srv-1''), (''name'', VStr ''vm'')]" and sname="VStr ''snap''"
      and st="setUp start",
      THEN conjunct2, THEN conjunct2, rule_format, OF y]
  obtain img where
    w: "cleanup_waits (snd ?Y) = cleanup_waits (setUp start) @
            [[(''waiter_callable'', VCallable (Method ?ic ''wait_for_resource_deletion'')), (''id'', img)]]"
    and b0: "\<forall>s. snapshot_of loads0 ?meta = Inr (Some s) \<longrightarrow>
             (\<exists>x1 x2 tail.
                cleanups (snd ?Y) = cleanups (setUp start) @
                  [Cleanup DeleteWrapper [VCallable (Method ?ic ''delete_image''), img] [],
                   Cleanup (Method ?sc ''wait_for_resource_deletion'') [s] [],
                   Cleanup DeleteWrapper [VCallable (Method ?sc ''delete_snapshot''), s] []] \<and>
                trace (snd (doCleanups stocked (snd ?Y))) = trace (snd ?Y) @
                  [CleanupFired (Cleanup DeleteWrapper [VCallable (Method ?sc ''delete_snapshot''), s] []),
                   ExtCalled ''delete_snapshot'' [?sc, s] [] x1,
                   CleanupFired (Cleanup (Method ?sc ''wait_for_resource_deletion'') [s] []),
                   ExtCalled ''wait_for_resource_deletion'' [?sc, s] [] x2] @ tail \<and>
                fired_cleanups tail =
                  Cleanup DeleteWrapper [VCallable (Method ?ic ''delete_image''), img] [] #
                  rev (cleanups (setUp start)))"
    by blast
  from b0[rule_format, OF sn] obtain y1 y2 tail' where
    b: "cleanups (snd ?Y) = cleanups (setUp start) @
                  [Cleanup DeleteWrapper [VCallable (Method ?ic ''delete_image''), img] [],
                   Cleanup (Method ?sc ''wait_for_resource_deletion'') [VStr ''snap-1''] [],
                   Cleanup DeleteWrapper [VCallable (Method ?sc ''delete_snapshot''), VStr ''snap-1''] []]"
       "trace (snd (doCleanups stocked (snd ?Y))) = trace (snd ?Y) @
                  [CleanupFired (Cleanup DeleteWrapper [VCallable (Method ?sc ''delete_snapshot''), VStr ''snap-1''] []),
                   ExtCalled ''delete_snapshot'' [?sc, VStr ''snap-1''] [] y1,
                   CleanupFired (Cleanup (Method ?sc ''wait_for_resource_deletion'') [VStr ''snap-1''] []),
                   ExtCalled ''wait_for_resource_deletion'' [?sc, VStr ''snap-1''] [] y2] @ tail'"
       "fired_cleanups tail' =
                  Cleanup DeleteWrapper [VCallable (Method ?ic ''delete_image''), img] [] #
                  rev (cleanups (setUp start))"
    by blast
  from b(1) yi s0 have img: "img = VStr ''img-1''" by simp
  have C: "cleanup_waits (snd ?Y) =
     [[(''waiter_callable'', VCallable (Method ?ic ''wait_for_resource_deletion'')), (''id'', VStr ''img-1'')]]"
    using w img s0 by simp
  have D: "cleanups (snd ?Y) =
     [WaitForCleanups,
      Cleanup DeleteWrapper [VCallable (Method ?ic ''delete_image''), VStr ''img-1''] [],
      Cleanup (Method ?sc ''wait_for_resource_deletion'') [VStr ''snap-1''] [],
      Cleanup DeleteWrapper [VCallable (Method ?sc ''delete_snapshot''), VStr ''snap-1''] []]"
    using b(1) img s0 by simp
  have E: "fired_cleanups (since (snd ?Y) (snd (doCleanups stocked (snd ?Y)))) =
     [Cleanup DeleteWrapper [VCallable (Method ?sc ''delete_snapshot''), VStr ''snap-1''] [],
      Cleanup (Method ?sc ''wait_for_resource_deletion'') [VStr ''snap-1''] [],
      Cleanup DeleteWrapper [VCallable (Method ?ic ''delete_image''), VStr ''img-1''] [],
      WaitForCleanups]"
    using b(2,3) img s0 by (simp add: since_def)
  from A B sn C D E show ?thesis by blast
qed

section \<open>Subnet allocation\<close>

lemma subnet_checks_append [simp]: "subnet_checks (xs @ ys) = subnet_checks xs @ subnet_checks ys"
  by (induction xs rule: subnet_checks.induct) auto

lemma subnet_attempts_append [simp]:
  "subnet_attempts (xs @ ys) = subnet_attempts xs @ subnet_attempts ys"
  by (induction xs rule: subnet_attempts.induct) auto

lemma since_append: "trace st' = trace st @ new \<Longrightarrow> since st st' = new"
  by (simp add: since_def)

lemma method_call_shape:
  "method_call ext obj m args kw st = (r, st1) \<Longrightarrow>
     cleanups st1 = cleanups st \<and> cleanup_waits st1 = cleanup_waits st \<and>
     trace st1 = trace st @ [ExtCalled m (obj # args) kw r]"
  by (auto simp: method_call_def client_call_def split: prod.splits)

lemma cidr_in_use_shape:
  assumes "cidr_in_use ext c t st = (r, st1)"
  shows "cleanups st1 = cleanups st \<and> cleanup_waits st1 = cleanup_waits st \<and>
     (\<exists>a k x. trace st1 = trace st @ [ExtCalled ''list_subnets'' a k x] \<and> cidr_kw k = c)"
proof -
  let ?kw = "[(''tenant_id'', t), (''cidr'', VStr c)]"
  obtain r0 s0 where mc: "method_call ext (VClient ''admin_manager.subnets_client'') ''list_subnets'' []
      ?kw st = (r0, s0)"
    by (cases "method_call ext (VClient ''admin_manager.subnets_client'') ''list_subnets'' [] ?kw st")
  have "st1 = s0" using assms mc
    by (cases r0) (simp_all add: cidr_in_use_def bind_res_def lift_def)
  moreover have "cidr_kw ?kw = c" by (simp add: cidr_kw_def)
  ultimately show ?thesis using method_call_shape[OF mc] by blast
qed

text \<open>One pass through the loop body: what it adds to the trace and how it ends.\<close>

lemma subnet_body_shape:
  assumes "subnet_body conf ext subnets_client network namestart ip_version kwargs c st = (fl, st1)"
  shows "cleanups st1 = cleanups st \<and> cleanup_waits st1 = cleanup_waits st \<and>
     (\<exists>seg. trace st1 = trace st @ seg \<and>
        ((seg = [] \<and> (\<exists>e. fl = Raises e)) \<or>
         (subnet_checks seg = [c] \<and> subnet_attempts seg = [] \<and> (fl = Continue \<or> (\<exists>e. fl = Raises e))) \<or>
         (\<exists>r. subnet_checks seg = [c] \<and> subnet_attempts seg = [(c, r)] \<and>
              ((\<exists>x. r = Inr x \<and> fl = Break x) \<or> (overlapping r \<and> fl = Continue) \<or>
               (\<exists>e. r = Inl e \<and> \<not> overlapping r \<and> fl = Raises e)))))"
proof -
  note b = assms[unfolded subnet_body_def]
  show ?thesis
  proof (cases "getattr network ''tenant_id''")
    case (Inl e)
    with b have "fl = Raises e" "st1 = st" by (simp_all add: bind_res_def lift_def)
    then show ?thesis by simp
  next
    case (Inr t)
    obtain r0 sa where ciu: "cidr_in_use ext c t st = (r0, sa)" by (cases "cidr_in_use ext c t st")
    from cidr_in_use_shape[OF ciu] obtain a k x where
      sa: "cleanups sa = cleanups st" "cleanup_waits sa = cleanup_waits st"
          "trace sa = trace st @ [ExtCalled ''list_subnets'' a k x]" "cidr_kw k = c" by blast
    have ck: "subnet_checks [ExtCalled ''list_subnets'' a k x] = [c]"
         "subnet_attempts [ExtCalled ''list_subnets'' a k x] = []" using sa(4) by simp_all
    have A: "bind_res (lift (getattr network ''tenant_id'')) (cidr_in_use ext c) st = (r0, sa)"
      using Inr ciu by (simp add: bind_res_def lift_def)
    show ?thesis
    proof (cases r0)
      case (Inl e)
      with b A have "fl = Raises e" "st1 = sa" by simp_all
      then show ?thesis using sa ck by blast
    next
      case inuse: (Inr u)
      show ?thesis
      proof (cases u)
        case True
        with b A inuse have "fl = Continue" "st1 = sa" by simp_all
        then show ?thesis using sa ck by blast
      next
        case False
        let ?req = "subnet_dict conf network namestart ip_version kwargs c"
        show ?thesis
        proof (cases ?req)
          case (Inl e)
          with b A inuse False have "fl = Raises e" "st1 = sa" by simp_all
          then show ?thesis using sa ck by blast
        next
          case req: (Inr subnet)
          have kw: "cidr_kw subnet = c"
            using req by (auto simp: subnet_dict_def bind_sum_def cidr_kw_def split: sum.splits if_splits)
          obtain r' sb where mc: "method_call ext subnets_client ''create_subnet'' [] subnet sa = (r', sb)"
            by (cases "method_call ext subnets_client ''create_subnet'' [] subnet sa")
          from method_call_shape[OF mc] have
            sb: "cleanups sb = cleanups sa" "cleanup_waits sb = cleanup_waits sa"
                "trace sb = trace sa @ [ExtCalled ''create_subnet'' [subnets_client] subnet r']" by simp_all
          from b A inuse False req mc have
            fl: "(\<exists>x. r' = Inr x \<and> fl = Break x) \<or> (overlapping r' \<and> fl = Continue) \<or>
                 (\<exists>e. r' = Inl e \<and> \<not> overlapping r' \<and> fl = Raises e)"
            and s1: "st1 = sb"
            by (auto split: sum.splits exn.splits if_splits)
          let ?seg = "[ExtCalled ''list_subnets'' a k x, ExtCalled ''create_subnet'' [subnets_client] subnet r']"
          have "trace st1 = trace st @ ?seg" using s1 sb sa by simp
          moreover have "subnet_checks ?seg = [c]" "subnet_attempts ?seg = [(c, r')]"
            using sa(4) kw by simp_all
          ultimately have tr: "trace st1 = trace st @ ?seg"
            and sh: "\<exists>r. subnet_checks ?seg = [c] \<and> subnet_attempts ?seg = [(c, r)] \<and>
              ((\<exists>x. r = Inr x \<and> fl = Break x) \<or> (overlapping r \<and> fl = Continue) \<or>
               (\<exists>e. r = Inl e \<and> \<not> overlapping r \<and> fl = Raises e))"
            using fl by simp_all
          have reg: "cleanups st1 = cleanups st" "cleanup_waits st1 = cleanup_waits st"
            using s1 sb sa by simp_all
          show ?thesis
            apply (intro conjI)
              apply (rule reg(1))
             apply (rule reg(2))
            apply (rule exI[of _ ?seg])
            apply (rule conjI[OF tr])
            apply (rule disjI2)
            apply (rule disjI2)
            apply (rule sh)
            done
        qed
      qed
    qed
  qed
qed

lemma subnet_loop_shape:
  assumes "subnet_loop conf ext sc network namestart ipv kwargs cands str st = (res, st')"
  shows "cleanups st' = cleanups st \<and> cleanup_waits st' = cleanup_waits st \<and>
     (\<exists>new. trace st' = trace st @ new \<and>
        (\<exists>n\<le>length cands. subnet_checks new = take n cands \<and>
            subseq (map fst (subnet_attempts new)) (take n cands)) \<and>
        list_all overlapping (map snd (butlast (subnet_attempts new))) \<and>
        (\<forall>x s. res = Inr (x, s) \<longrightarrow> x \<noteq> VNone \<longrightarrow>
           (\<exists>c. s = VStr c \<and> subnet_attempts new \<noteq> [] \<and> last (subnet_attempts new) = (c, Inr x))) \<and>
        (\<forall>e. subnet_attempts new \<noteq> [] \<longrightarrow> snd (last (subnet_attempts new)) = Inl e \<longrightarrow>
           \<not> overlapping (Inl e) \<longrightarrow> res = Inl e))"
  using assms
proof (induction cands arbitrary: str st)
  case Nil
  then have "st' = st" "res = Inr (VNone, str)" by auto
  then show ?case by simp
next
  case (Cons c rest)
  obtain fl s1 where body: "subnet_body conf ext sc network namestart ipv kwargs c st = (fl, s1)"
    by (cases "subnet_body conf ext sc network namestart ipv kwargs c st")
  from subnet_body_shape[OF body] obtain seg where
    reg1: "cleanups s1 = cleanups st" "cleanup_waits s1 = cleanup_waits st"
    and tr1: "trace s1 = trace st @ seg"
    and sh: "(seg = [] \<and> (\<exists>e. fl = Raises e)) \<or>
         (subnet_checks seg = [c] \<and> subnet_attempts seg = [] \<and> (fl = Continue \<or> (\<exists>e. fl = Raises e))) \<or>
         (\<exists>r. subnet_checks seg = [c] \<and> subnet_attempts seg = [(c, r)] \<and>
              ((\<exists>x. r = Inr x \<and> fl = Break x) \<or> (overlapping r \<and> fl = Continue) \<or>
               (\<exists>e. r = Inl e \<and> \<not> overlapping r \<and> fl = Raises e)))"
    by blast
  show ?case
  proof (cases fl)
    case Continue
    with Cons.prems body have rec: "subnet_loop conf ext sc network namestart ipv kwargs rest (VStr c) s1 = (res, st')"
      by simp
    from Cons.IH[OF rec] obtain new n where
      reg2: "cleanups st' = cleanups s1" "cleanup_waits st' = cleanup_waits s1"
      and tr2: "trace st' = trace s1 @ new"
      and n: "n \<le> length rest" "subnet_checks new = take n rest"
             "subseq (map fst (subnet_attempts new)) (take n rest)"
      and ov: "list_all overlapping (map snd (butlast (subnet_attempts new)))"
      and ok: "\<forall>x s. res = Inr (x, s) \<longrightarrow> x \<noteq> VNone \<longrightarrow>
           (\<exists>c. s = VStr c \<and> subnet_attempts new \<noteq> [] \<and> last (subnet_attempts new) = (c, Inr x))"
      and bad: "\<forall>e. subnet_attempts new \<noteq> [] \<longrightarrow> snd (last (subnet_attempts new)) = Inl e \<longrightarrow>
           \<not> overlapping (Inl e) \<longrightarrow> res = Inl e"
      by blast
    from sh Continue have chk: "subnet_checks seg = [c]"
      and att: "subnet_attempts seg = [] \<or> (\<exists>r. subnet_attempts seg = [(c, r)] \<and> overlapping r)"
      by auto
    let ?new = "seg @ new"
    have a: "trace st' = trace st @ ?new" using tr1 tr2 by simp
    have b: "\<exists>n\<le>length (c # rest). subnet_checks ?new = take n (c # rest) \<and>
            subseq (map fst (subnet_attempts ?new)) (take n (c # rest))"
    proof (intro exI[of _ "Suc n"] conjI)
      show "Suc n \<le> length (c # rest)" using n(1) by simp
      show "subnet_checks ?new = take (Suc n) (c # rest)" using chk n(2) by simp
      show "subseq (map fst (subnet_attempts ?new)) (take (Suc n) (c # rest))"
        using att n(3) by (auto intro: subseq_Cons')
    qed
    have c': "list_all overlapping (map snd (butlast (subnet_attempts ?new)))"
      using att ov by (auto simp: butlast_append)
    have d: "\<forall>x s. res = Inr (x, s) \<longrightarrow> x \<noteq> VNone \<longrightarrow>
           (\<exists>c. s = VStr c \<and> subnet_attempts ?new \<noteq> [] \<and> last (subnet_attempts ?new) = (c, Inr x))"
      using ok by auto
    have e: "\<forall>e. subnet_attempts ?new \<noteq> [] \<longrightarrow> snd (last (subnet_attempts ?new)) = Inl e \<longrightarrow>
           \<not> overlapping (Inl e) \<longrightarrow> res = Inl e"
      using att bad by (cases "subnet_attempts new = []") auto
    show ?thesis
      apply (intro conjI)
        apply (simp add: reg1 reg2)
       apply (simp add: reg1 reg2)
      apply (rule exI[of _ ?new])
      apply (intro conjI a b c' d e)
      done
  next
    case (Break x)
    with Cons.prems body have r: "res = Inr (x, VStr c)" "st' = s1" by simp_all
    from sh Break have chk: "subnet_checks seg = [c]" and att: "subnet_attempts seg = [(c, Inr x)]"
      by auto
    have b: "\<exists>n\<le>length (c # rest). subnet_checks seg = take n (c # rest) \<and>
            subseq (map fst (subnet_attempts seg)) (take n (c # rest))"
      by (intro exI[of _ "Suc 0"]) (simp add: chk att)
    show ?thesis
      apply (intro conjI)
        apply (simp add: reg1 r)
       apply (simp add: reg1 r)
      apply (rule exI[of _ seg])
      apply (intro conjI b)
         apply (simp add: tr1 r)
        apply (simp add: att)
       apply (simp add: att r)
      apply (simp add: att r)
      done
  next
    case (Raises e)
    with Cons.prems body have r: "res = Inl e" "st' = s1" by simp_all
    from sh Raises have cases3: "(seg = []) \<or> (subnet_checks seg = [c] \<and> subnet_attempts seg = []) \<or>
        (\<exists>r. subnet_checks seg = [c] \<and> subnet_attempts seg = [(c, r)] \<and>
             (overlapping r \<or> r = Inl e))"
      by auto
    have b: "\<exists>n\<le>length (c # rest). subnet_checks seg = take n (c # rest) \<and>
            subseq (map fst (subnet_attempts seg)) (take n (c # rest))"
    proof (cases "seg = []")
      case True
      then show ?thesis by (intro exI[of _ 0]) simp
    next
      case False
      with cases3 have "subnet_checks seg = [c]"
        "subnet_attempts seg = [] \<or> (\<exists>r. subnet_attempts seg = [(c, r)])" by auto
      then show ?thesis by (intro exI[of _ "Suc 0"]) auto
    qed
    have c': "list_all overlapping (map snd (butlast (subnet_attempts seg)))"
      using cases3 by auto
    have e': "\<forall>e'. subnet_attempts seg \<noteq> [] \<longrightarrow> snd (last (subnet_attempts seg)) = Inl e' \<longrightarrow>
           \<not> overlapping (Inl e') \<longrightarrow> res = Inl e'"
      using cases3 r by auto
    show ?thesis
      apply (intro conjI)
        apply (simp add: reg1 r)
       apply (simp add: reg1 r)
      apply (rule exI[of _ seg])
      apply (intro conjI b c' e')
       apply (simp add: tr1 r)
      apply (simp add: r)
      done
  qed
qed

lemma subnet_body_taken:
  assumes full: "all_blocks_taken ext"
    and t: "getattr network ''tenant_id'' = Inr t" and i: "getattr network ''id'' = Inr nid"
    and once: "\<not> given_twice kwargs"
  shows "\<exists>s1 seg. subnet_body conf ext sc network namestart ipv kwargs c st = (Continue, s1) \<and>
     trace s1 = trace st @ seg \<and> subnet_checks seg = [c]"
proof -
  obtain fl s1 where body: "subnet_body conf ext sc network namestart ipv kwargs c st = (fl, s1)"
    by (cases "subnet_body conf ext sc network namestart ipv kwargs c st")
  let ?kw = "[(''tenant_id'', t), (''cidr'', VStr c)]"
  let ?adm = "VClient ''admin_manager.subnets_client''"
  from full obtain d l where
    lst: "fst (ext ''list_subnets'' [?adm] ?kw (world st)) = Inr (VDict d)"
         "map_of d ''subnets'' = Some (VList l)"
    unfolding all_blocks_taken_def by blast
  obtain sa where ciu: "cidr_in_use ext c t st = (Inr (l \<noteq> []), sa)"
    using lst
    by (cases "ext ''list_subnets'' [?adm] ?kw (world st)")
       (auto simp: cidr_in_use_def method_call_def client_call_def bind_res_def lift_def bind_sum_def)
  from cidr_in_use_shape[OF ciu] obtain a k x where
    sa: "trace sa = trace st @ [ExtCalled ''list_subnets'' a k x]" "cidr_kw k = c" by blast
  have A: "bind_res (lift (getattr network ''tenant_id'')) (cidr_in_use ext c) st = (Inr (l \<noteq> []), sa)"
    using t ciu by (simp add: bind_res_def lift_def)
  note b = body[unfolded subnet_body_def]
  show ?thesis
  proof (cases "l = []")
    case False
    with b A have "fl = Continue" "s1 = sa" by simp_all
    then show ?thesis using body sa by auto
  next
    case True
    let ?subnet = "[(''name'', VStr (rand_name conf namestart)), (''network_id'', nid),
                    (''tenant_id'', t), (''cidr'', VStr c), (''ip_version'', ipv)] @ kwargs"
    obtain r' sb where mc: "method_call ext sc ''create_subnet'' [] ?subnet sa = (r', sb)"
      by (cases "method_call ext sc ''create_subnet'' [] ?subnet sa")
    have "r' = fst (ext ''create_subnet'' [sc] ?subnet (world sa))"
      using mc by (auto simp: method_call_def client_call_def split: prod.splits)
    with full have "overlapping r'" unfolding all_blocks_taken_def by simp
    then obtain m where m: "r' = Inl (Conflict m)" "sublist ''overlaps with another subnet'' m"
      by (cases r' rule: overlapping.cases) auto
    have req: "subnet_dict conf network namestart ipv kwargs c = Inr ?subnet"
      using t i once by (simp add: subnet_dict_def bind_sum_def)
    from b A True req mc m have "fl = Continue" "s1 = sb" by simp_all
    moreover from method_call_shape[OF mc] sa
    have "trace sb = trace st @ [ExtCalled ''list_subnets'' a k x,
            ExtCalled ''create_subnet'' [sc] ?subnet r']" by simp
    moreover have "subnet_checks [ExtCalled ''list_subnets'' a k x,
            ExtCalled ''create_subnet'' [sc] ?subnet r'] = [c]" using sa(2) by simp
    ultimately show ?thesis using body by blast
  qed
qed

lemma subnet_loop_taken:
  assumes full: "all_blocks_taken ext"
    and t: "getattr network ''tenant_id'' = Inr t" and i: "getattr network ''id'' = Inr nid"
    and once: "\<not> given_twice kwargs"
  shows "\<exists>s st' new. subnet_loop conf ext sc network namestart ipv kwargs cands str st = (Inr (VNone, s), st') \<and>
     trace st' = trace st @ new \<and> subnet_checks new = cands"
proof (induction cands arbitrary: str st)
  case Nil
  then show ?case by simp
next
  case (Cons c rest)
  from subnet_body_taken[OF full t i once, of conf sc namestart ipv c st] obtain s1 seg where
    b: "subnet_body conf ext sc network namestart ipv kwargs c st = (Continue, s1)"
       "trace s1 = trace st @ seg" "subnet_checks seg = [c]" by blast
  from Cons.IH[of "VStr c" s1] obtain s st' new where
    r: "subnet_loop conf ext sc network namestart ipv kwargs rest (VStr c) s1 = (Inr (VNone, s), st')"
       "trace st' = trace s1 @ new" "subnet_checks new = rest" by blast
  have "subnet_loop conf ext sc network namestart ipv kwargs (c # rest) str st = (Inr (VNone, s), st')"
    using b r by simp
  moreover have "trace st' = trace st @ (seg @ new)" using b r by simp
  moreover have "subnet_checks (seg @ new) = c # rest" using b r by simp
  ultimately show ?case by blast
qed

text \<open>What follows the loop in \<^verbatim>\<open>_create_subnet\<close> calls nothing outside.\<close>

lemma create_subnet_after_loop:
  assumes "subnet_loop conf ext
             (if \<not> truthy subnets_client then VClient ''subnets_client'' else subnets_client)
             network namestart (ip_version_of kwargs) (AList.delete ''ip_version'' kwargs)
             (candidate_blocks conf (ip_version_of kwargs)) VNone st = (res, st')"
  shows "trace (snd (create_subnet conf ext network client subnets_client routers_client namestart kwargs st)) =
           trace st' \<and>
     (case res of
        Inl e \<Rightarrow>
          create_subnet conf ext network client subnets_client routers_client namestart kwargs st = (Inl e, st')
      | Inr (result, str) \<Rightarrow>
          if result = VNone
          then create_subnet conf ext network client subnets_client routers_client namestart kwargs st =
                 (Inl (AssertionError ''Unable to allocate tenant network''), st')
          else (\<exists>e. create_subnet conf ext network client subnets_client routers_client namestart kwargs st =
                      (Inl e, st')) \<or>
               (\<exists>subnet.
                  fst (create_subnet conf ext network client subnets_client routers_client namestart kwargs st) =
                    Inr subnet \<and>
                  getattr subnet ''cidr'' = Inr str \<and>
                  cleanups (snd (create_subnet conf ext network client subnets_client routers_client
                                   namestart kwargs st)) =
                    cleanups st' @ [Cleanup DeleteWrapper [VCallable (Method subnet ''delete'')] []]))"
proof -
  let ?X = "create_subnet conf ext network client subnets_client routers_client namestart kwargs st"
  let ?clients = "[(''network_client'', if \<not> truthy client then VClient ''network_client'' else client),
                   (''subnets_client'',
                    if \<not> truthy subnets_client then VClient ''subnets_client'' else subnets_client),
                   (''routers_client'',
                    if \<not> truthy routers_client then VClient ''routers_client'' else routers_client)]"
  show ?thesis
  proof (cases res)
    case (Inl e)
    have "?X = (Inl e, st')" using assms Inl by (simp add: create_subnet_def Let_def bind_res_def)
    then show ?thesis using Inl by simp
  next
    case (Inr p)
    obtain result str where p: "p = (result, str)" by (cases p)
    show ?thesis
    proof (cases "result = VNone")
      case True
      have "?X = (Inl (AssertionError ''Unable to allocate tenant network''), st')"
        using assms Inr p True
        by (simp add: create_subnet_def Let_def bind_res_def lift_def assertIsNotNone_def)
      then show ?thesis using Inr p True by simp
    next
      case False
      let ?obj = "bind_sum (subscript result ''subnet'') (construct ''DeletableSubnet'' ?clients)"
      show ?thesis
      proof (cases ?obj)
        case (Inl e)
        have "?X = (Inl e, st')"
          using assms \<open>res = Inr p\<close> p False Inl
          by (simp add: create_subnet_def Let_def bind_res_def lift_def assertIsNotNone_def)
        then show ?thesis using \<open>res = Inr p\<close> p False by auto
      next
        case obj: (Inr subnet)
        show ?thesis
        proof (cases "bind_sum (getattr subnet ''cidr'') (\<lambda>c. assertEqual c str [])")
          case (Inl e)
          have "?X = (Inl e, st')"
            using assms \<open>res = Inr p\<close> p False obj Inl
            by (simp add: create_subnet_def Let_def bind_res_def lift_def assertIsNotNone_def)
          then show ?thesis using \<open>res = Inr p\<close> p False by auto
        next
          case chk: (Inr u)
          then have cidr: "getattr subnet ''cidr'' = Inr str"
            by (auto simp: bind_sum_def assertEqual_def split: sum.splits if_splits)
          have "?X = (Inr subnet,
                  addCleanup (Cleanup DeleteWrapper [VCallable (Method subnet ''delete'')] []) st')"
            using assms \<open>res = Inr p\<close> p False obj chk
            by (simp add: create_subnet_def Let_def bind_res_def lift_def assertIsNotNone_def
                addCleanupA_def ret_def)
          then show ?thesis using \<open>res = Inr p\<close> p False cidr by (auto simp: addCleanup_def)
        qed
      qed
    qed
  qed
qed

text \<open>
  Claim C5. \<^verbatim>\<open>_create_subnet\<close> checks the candidate blocks of the configured tenant
  network in their order, each at most once, and tries to create a subnet only on
  blocks it has checked; every attempt but the last was refused as overlapping with
  another subnet. When the factory returns a subnet, the last attempt is the one that
  succeeded, on the block of that subnet. When the last attempt failed in any other way
  (a \<^verbatim>\<open>Conflict\<close> with another message included), that error reaches the caller. On a
  backend where no block can be allocated, and with keywords that give none of the keys
  of the request again, every block is checked once and the factory fails with
  \<^verbatim>\<open>Unable to allocate tenant network\<close>.
\<close>

theorem subnet_allocation_stays_in_pool:
  "let X = create_subnet conf ext network client subnets_client routers_client namestart kwargs st;
       new = since st (snd X);
       blocks = candidate_blocks conf (ip_version_of kwargs)
   in (\<exists>n\<le>length blocks. subnet_checks new = take n blocks \<and>
          subseq (map fst (subnet_attempts new)) (take n blocks)) \<and>
      list_all overlapping (map snd (butlast (subnet_attempts new))) \<and>
      (\<forall>subnet. fst X = Inr subnet \<longrightarrow>
         (\<exists>c r. subnet_attempts new \<noteq> [] \<and> last (subnet_attempts new) = (c, Inr r) \<and>
            getattr subnet ''cidr'' = Inr (VStr c) \<and>
            cleanups (snd X) =
              cleanups st @ [Cleanup DeleteWrapper [VCallable (Method subnet ''delete'')] []])) \<and>
      (\<forall>e. subnet_attempts new \<noteq> [] \<longrightarrow> snd (last (subnet_attempts new)) = Inl e \<longrightarrow>
         \<not> overlapping (Inl e) \<longrightarrow> fst X = Inl e) \<and>
      (all_blocks_taken ext \<longrightarrow> (\<exists>t. getattr network ''tenant_id'' = Inr t) \<longrightarrow>
       (\<exists>i. getattr network ''id'' = Inr i) \<longrightarrow>
       \<not> given_twice (AList.delete ''ip_version'' kwargs) \<longrightarrow>
         fst X = Inl (AssertionError ''Unable to allocate tenant network'') \<and>
         subnet_checks new = blocks \<and> cleanups (snd X) = cleanups st)"
proof -
  let ?X = "create_subnet conf ext network client subnets_client routers_client namestart kwargs st"
  let ?sc = "if \<not> truthy subnets_client then VClient ''subnets_client'' else subnets_client"
  let ?ipv = "ip_version_of kwargs"
  let ?kw = "AList.delete ''ip_version'' kwargs"
  let ?blocks = "candidate_blocks conf ?ipv"
  let ?loop = "subnet_loop conf ext ?sc network namestart ?ipv ?kw ?blocks VNone st"
  obtain res st' where loop: "?loop = (res, st')" by (cases ?loop)
  from subnet_loop_shape[OF loop] obtain new where
    reg: "cleanups st' = cleanups st"
    and tr: "trace st' = trace st @ new"
    and bound: "\<exists>n\<le>length ?blocks. subnet_checks new = take n ?blocks \<and>
            subseq (map fst (subnet_attempts new)) (take n ?blocks)"
    and ov: "list_all overlapping (map snd (butlast (subnet_attempts new)))"
    and ok: "\<forall>x s. res = Inr (x, s) \<longrightarrow> x \<noteq> VNone \<longrightarrow>
           (\<exists>c. s = VStr c \<and> subnet_attempts new \<noteq> [] \<and> last (subnet_attempts new) = (c, Inr x))"
    and bad: "\<forall>e. subnet_attempts new \<noteq> [] \<longrightarrow> snd (last (subnet_attempts new)) = Inl e \<longrightarrow>
           \<not> overlapping (Inl e) \<longrightarrow> res = Inl e"
    by blast
  note after = create_subnet_after_loop[OF loop, of client routers_client]
  from after have trX: "trace (snd ?X) = trace st'" by blast
  have new: "since st (snd ?X) = new" using trX tr by (simp add: since_def)
  have succ: "\<exists>c r. subnet_attempts new \<noteq> [] \<and> last (subnet_attempts new) = (c, Inr r) \<and>
            getattr subnet ''cidr'' = Inr (VStr c) \<and>
            cleanups (snd ?X) =
              cleanups st @ [Cleanup DeleteWrapper [VCallable (Method subnet ''delete'')] []]"
    if s: "fst ?X = Inr subnet" for subnet
  proof (cases res)
    case (Inl e)
    with after s show ?thesis by simp
  next
    case (Inr p)
    obtain result str where p: "p = (result, str)" by (cases p)
    from after Inr p s have nn: "result \<noteq> VNone" by (auto split: if_splits)
    with after Inr p s have
      c: "getattr subnet ''cidr'' = Inr str"
         "cleanups (snd ?X) = cleanups st' @ [Cleanup DeleteWrapper [VCallable (Method subnet ''delete'')] []]"
      by auto
    from ok Inr p nn obtain c where "str = VStr c" "subnet_attempts new \<noteq> []"
      "last (subnet_attempts new) = (c, Inr result)" by blast
    then show ?thesis using c reg by auto
  qed
  have fail: "fst ?X = Inl e"
    if "subnet_attempts new \<noteq> []" "snd (last (subnet_attempts new)) = Inl e" "\<not> overlapping (Inl e)" for e
  proof -
    from bad that have "res = Inl e" by blast
    with after show ?thesis by simp
  qed
  have full: "fst ?X = Inl (AssertionError ''Unable to allocate tenant network'') \<and>
         subnet_checks new = ?blocks \<and> cleanups (snd ?X) = cleanups st"
    if f: "all_blocks_taken ext" and t: "\<exists>t. getattr network ''tenant_id'' = Inr t"
      and i: "\<exists>i. getattr network ''id'' = Inr i"
      and once: "\<not> given_twice (AList.delete ''ip_version'' kwargs)"
  proof -
    from t i obtain t' i' where ti: "getattr network ''tenant_id'' = Inr t'" "getattr network ''id'' = Inr i'"
      by blast
    from subnet_loop_taken[OF f ti once, of conf ?sc namestart ?ipv ?blocks VNone st] loop
    obtain s new' where r: "res = Inr (VNone, s)" "trace st' = trace st @ new'" "subnet_checks new' = ?blocks"
      by auto
    from r tr have "new' = new" by simp
    moreover from after r have "?X = (Inl (AssertionError ''Unable to allocate tenant network''), st')"
      by simp
    ultimately show ?thesis using r reg by simp
  qed
  show ?thesis unfolding Let_def new using bound ov succ fail full by blast
qed

theorem subnet_allocation_stays_in_pool_witness:
  "fst (create_subnet conf0 cloud net1 VNone VNone VNone ''subnet-smoke'' [] three_in_use) =
     Inr (VObj ''DeletableSubnet''
            [(''network_client'', VClient ''network_client''), (''subnets_client'', VClient ''subnets_client''),
             (''routers_client'', VClient ''routers_client''),
             (''id'', VStr ''subnet-1''), (''cidr'', VStr ''10.100.0.48/28'')]) \<and>
   subnet_checks (since three_in_use
      (snd (create_subnet conf0 cloud net1 VNone VNone VNone ''subnet-smoke'' [] three_in_use))) =
     [''10.100.0.0/28'', ''10.100.0.16/28'', ''10.100.0.32/28'', ''10.100.0.48/28''] \<and>
   (\<exists>c r. last (subnet_attempts (since three_in_use
              (snd (create_subnet conf0 cloud net1 VNone VNone VNone ''subnet-smoke'' [] three_in_use)))) =
            (c, Inr r) \<and> c = ''10.100.0.48/28'') \<and>
   all_blocks_taken crowded \<and>
   fst (create_subnet conf0 crowded net1 VNone VNone VNone ''subnet-smoke'' [] (setUp fresh)) =
     Inl (AssertionError ''Unable to allocate tenant network'') \<and>
   subnet_checks (since (setUp fresh)
      (snd (create_subnet conf0 crowded net1 VNone VNone VNone ''subnet-smoke'' [] (setUp fresh)))) =
     [''10.100.0.0/28'', ''10.100.0.16/28'', ''10.100.0.32/28'', ''10.100.0.48/28'', ''10.100.0.64/28''] \<and>
   given_twice (AList.delete ''ip_version'' [(''cidr'', VStr ''10.9.9.0/24'')]) \<and>
   fst (create_subnet conf0 crowded net1 VNone VNone VNone ''subnet-smoke''
          [(''cidr'', VStr ''10.9.9.0/24'')] (setUp fresh)) =
     Inl (TypeError ''dict() got multiple values for keyword argument'')"
proof -
  let ?X = "create_subnet conf0 cloud net1 VNone VNone VNone ''subnet-smoke'' [] three_in_use"
  let ?Y = "create_subnet conf0 crowded net1 VNone VNone VNone ''subnet-smoke'' [] (setUp fresh)"
  note defs = create_subnet_def subnet_body_def subnet_dict_def given_twice_def subnet_keys_def
    cidr_in_use_def conf0_def cloud_def net1_def
    three_in_use_def start_def setUp_def addCleanup_def addCleanupA_def bind_res_def method_call_def
    client_call_def lift_def ret_def bind_sum_def assertEqual_def assertIsNotNone_def ip_version_of_def
    candidate_blocks_def cidr_kw_def since_def Let_def
  have s: "fst ?X = Inr (VObj ''DeletableSubnet''
            [(''network_client'', VClient ''network_client''), (''subnets_client'', VClient ''subnets_client''),
             (''routers_client'', VClient ''routers_client''),
             (''id'', VStr ''subnet-1''), (''cidr'', VStr ''10.100.0.48/28'')])"
    by (simp add: defs)
  have chk: "subnet_checks (since three_in_use (snd ?X)) =
     [''10.100.0.0/28'', ''10.100.0.16/28'', ''10.100.0.32/28'', ''10.100.0.48/28'']"
    by (simp add: defs)
  have f: "all_blocks_taken crowded"
    by (simp add: all_blocks_taken_def crowded_def sublist_code)
  have t: "\<exists>t. getattr net1 ''tenant_id'' = Inr t" and i: "\<exists>i. getattr net1 ''id'' = Inr i"
    by (simp_all add: net1_def)
  have o: "\<not> given_twice (AList.delete ''ip_version'' [])"
    by (simp add: given_twice_def subnet_keys_def)
  note T = subnet_allocation_stays_in_pool[unfolded Let_def]
  from T[where conf=conf0 and ext=cloud and network=net1 and client=VNone and subnets_client=VNone
        and routers_client=VNone and namestart="''subnet-smoke''" and kwargs="[]" and st=three_in_use,
      THEN conjunct2, THEN conjunct2, THEN conjunct1, rule_format, OF s]
  have a: "\<exists>c r. last (subnet_attempts (since three_in_use (snd ?X))) = (c, Inr r) \<and> c = ''10.100.0.48/28''"
    by auto
  from T[where conf=conf0 and ext=crowded and network=net1 and client=VNone and subnets_client=VNone
        and routers_client=VNone and namestart="''subnet-smoke''" and kwargs="[]" and st="setUp fresh",
      THEN conjunct2, THEN conjunct2, THEN conjunct2, THEN conjunct2, rule_format, OF f t i o]
  have b: "fst ?Y = Inl (AssertionError ''Unable to allocate tenant network'')"
    "subnet_checks (since (setUp fresh) (snd ?Y)) =
     [''10.100.0.0/28'', ''10.100.0.16/28'', ''10.100.0.32/28'', ''10.100.0.48/28'', ''10.100.0.64/28'']"
    by (simp_all add: candidate_blocks_def ip_version_of_def conf0_def)
  have tw: "given_twice (AList.delete ''ip_version'' [(''cidr'', VStr ''10.9.9.0/24'')])"
    by (simp add: given_twice_def subnet_keys_def)
  have te: "fst (create_subnet conf0 crowded net1 VNone VNone VNone ''subnet-smoke''
          [(''cidr'', VStr ''10.9.9.0/24'')] (setUp fresh)) =
     Inl (TypeError ''dict() got multiple values for keyword argument'')"
    by (simp add: defs crowded_def fresh_def)
  from s chk a f b tw te show ?thesis by blast
qed

section \<open>Security group rules\<close>

lemma rule_attempts_append [simp]: "rule_attempts (xs @ ys) = rule_attempts xs @ rule_attempts ys"
  by (induction xs rule: rule_attempts.induct) auto

lemma subscript_not_conflict: "subscript v k = Inl e \<Longrightarrow> \<not> is_conflict e"
  by (cases v) (auto split: option.splits)

lemma getattr_not_conflict: "getattr v k = Inl e \<Longrightarrow> \<not> is_conflict e"
  by (cases v) (auto split: option.splits)

lemma construct_not_conflict: "construct cls cl v = Inl e \<Longrightarrow> \<not> is_conflict e"
  by (cases v) (auto split: if_splits)

lemma assertEqual_not_conflict: "assertEqual a b m = Inl e \<Longrightarrow> \<not> is_conflict e"
  by (auto simp: assertEqual_def split: if_splits)

lemma bind_sum_not_conflict:
  "bind_sum r f = Inl e \<Longrightarrow> (\<And>e. r = Inl e \<Longrightarrow> \<not> is_conflict e) \<Longrightarrow>
     (\<And>x e. f x = Inl e \<Longrightarrow> \<not> is_conflict e) \<Longrightarrow> \<not> is_conflict e"
  by (cases r) (auto simp: bind_sum_def)

lemma keeps_default_security_group [keeps]:
  "keeps_registry (default_security_group conf ext client tenant_id)"
  unfolding default_security_group_def Let_def by (intro keeps)

lemma keeps_create_security_group_rule [keeps]:
  "keeps_registry (create_security_group_rule conf ext secgroup rc tid sgc kw)"
  unfolding create_security_group_rule_def Let_def by (intro keeps)

lemma default_security_group_shape:
  assumes "default_security_group conf ext client tenant_id st = (g, sa)"
  shows "\<exists>seg. trace sa = trace st @ seg \<and> rule_attempts seg = []"
proof -
  let ?c = "if client = VNone then VClient ''security_groups_client'' else client"
  obtain r0 s0 where mc: "method_call ext ?c ''list_security_groups'' [] [] st = (r0, s0)"
    by (cases "method_call ext ?c ''list_security_groups'' [] [] st")
  have "sa = s0" using assms mc
    by (cases r0) (auto simp: default_security_group_def Let_def bind_res_def lift_def split: sum.splits)
  with method_call_shape[OF mc] show ?thesis by simp
qed

text \<open>What the validation after a creation can raise is never a \<^verbatim>\<open>Conflict\<close>.\<close>

lemma rule_validation:
  assumes "bind_res (lift (bind_sum (subscript v ''security_group_rule'')
                     (construct ''DeletableSecurityGroupRule'' cl))) (\<lambda>sg_rule.
           bind_res (lift (bind_sum (getattr sg ''tenant_id'') (\<lambda>a.
                           bind_sum (getattr sg_rule ''tenant_id'') (\<lambda>b. assertEqual a b [])))) (\<lambda>_.
           bind_res (lift (bind_sum (getattr sg ''id'') (\<lambda>a.
                           bind_sum (getattr sg_rule ''security_group_id'') (\<lambda>b. assertEqual a b [])))) (\<lambda>_.
           ret sg_rule))) sb = (r, st1)"
  shows "st1 = sb \<and> ((\<exists>ob. r = Inr ob) \<or> (\<exists>e. r = Inl e \<and> \<not> is_conflict e))"
proof -
  let ?C = "bind_sum (subscript v ''security_group_rule'') (construct ''DeletableSecurityGroupRule'' cl)"
  show ?thesis
  proof (cases ?C)
    case (Inl e)
    then have "\<not> is_conflict e"
      by (rule bind_sum_not_conflict) (auto dest: subscript_not_conflict construct_not_conflict)
    moreover from assms Inl have "r = Inl e" "st1 = sb" by (simp_all add: bind_res_def lift_def)
    ultimately show ?thesis by simp
  next
    case c: (Inr sg_rule)
    let ?A1 = "bind_sum (getattr sg ''tenant_id'') (\<lambda>a.
                 bind_sum (getattr sg_rule ''tenant_id'') (\<lambda>b. assertEqual a b []))"
    show ?thesis
    proof (cases ?A1)
      case (Inl e)
      then have "\<not> is_conflict e"
        by (auto simp: bind_sum_def split: sum.splits
            dest: getattr_not_conflict assertEqual_not_conflict)
      moreover from assms c Inl have "r = Inl e" "st1 = sb" by (simp_all add: bind_res_def lift_def)
      ultimately show ?thesis by simp
    next
      case a1: (Inr u)
      let ?A2 = "bind_sum (getattr sg ''id'') (\<lambda>a.
                   bind_sum (getattr sg_rule ''security_group_id'') (\<lambda>b. assertEqual a b []))"
      show ?thesis
      proof (cases ?A2)
        case (Inl e)
        then have "\<not> is_conflict e"
          by (auto simp: bind_sum_def split: sum.splits
              dest: getattr_not_conflict assertEqual_not_conflict)
        moreover from assms c a1 Inl have "r = Inl e" "st1 = sb"
          by (simp_all add: bind_res_def lift_def)
        ultimately show ?thesis by simp
      next
        case (Inr u2)
        with assms c a1 have "r = Inr sg_rule" "st1 = sb"
          by (simp_all add: bind_res_def lift_def ret_def)
        then show ?thesis by simp
      qed
    qed
  qed
qed

text \<open>
  One call of the rule factory asks for at most one creation. The conflict of a creation
  is the factory's own result; after a creation that succeeded, and with a security group
  given, the factory raises no conflict at all.
\<close>

lemma create_security_group_rule_shape:
  assumes "create_security_group_rule conf ext secgroup rc tid sgc kw st = (r, st1)"
  shows "\<exists>seg. trace st1 = trace st @ seg \<and>
           ((rule_attempts seg = [] \<and> (\<exists>e. r = Inl e \<and> (secgroup \<noteq> VNone \<longrightarrow> \<not> is_conflict e))) \<or>
            (\<exists>e. rule_attempts seg = [Inl e] \<and> r = Inl e) \<or>
            (\<exists>v. rule_attempts seg = [Inr v] \<and>
                 ((\<exists>ob. r = Inr ob) \<or> (\<exists>e. r = Inl e \<and> \<not> is_conflict e))))"
proof -
  let ?rc = "if rc = VNone then VClient ''security_group_rules_client'' else rc"
  let ?sgc = "if sgc = VNone then VClient ''security_groups_client'' else sgc"
  let ?tid = "if \<not> truthy tid then client_tenant_id conf ?sgc else tid"
  let ?G = "if secgroup = VNone then default_security_group conf ext ?sgc ?tid else ret secgroup"
  obtain g sa where G: "?G st = (g, sa)" by (cases "?G st")
  have Gshape: "\<exists>seg. trace sa = trace st @ seg \<and> rule_attempts seg = []"
  proof (cases "secgroup = VNone")
    case True
    with G show ?thesis by (simp add: default_security_group_shape)
  next
    case False
    with G show ?thesis by (simp add: ret_def)
  qed
  then obtain seg0 where seg0: "trace sa = trace st @ seg0" "rule_attempts seg0 = []" by blast
  have Ggiven: "secgroup \<noteq> VNone \<Longrightarrow> g = Inr secgroup" using G by (simp add: ret_def)
  show ?thesis
  proof (cases g)
    case (Inl e)
    with assms G have "r = Inl e" "st1 = sa"
      by (simp_all add: create_security_group_rule_def Let_def bind_res_def)
    moreover have "secgroup \<noteq> VNone \<longrightarrow> \<not> is_conflict e" using Ggiven Inl by auto
    ultimately show ?thesis using seg0 by blast
  next
    case g: (Inr sg)
    let ?REQ = "bind_sum (getattr sg ''id'') (\<lambda>sid.
                  bind_sum (getattr sg ''tenant_id'') (\<lambda>tid.
                  Inr (fold (\<lambda>(k, v). AList.update k v) kw
                         [(''security_group_id'', sid), (''tenant_id'', tid)])))"
    show ?thesis
    proof (cases ?REQ)
      case (Inl e)
      then have "\<not> is_conflict e"
        by (auto simp: bind_sum_def split: sum.splits dest: getattr_not_conflict)
      moreover from assms G g Inl have "r = Inl e" "st1 = sa"
        by (simp_all add: create_security_group_rule_def Let_def bind_res_def lift_def)
      ultimately show ?thesis using seg0 by blast
    next
      case req: (Inr ruleset)
      obtain x sb where mc: "method_call ext ?rc ''create_security_group_rule'' [] ruleset sa = (x, sb)"
        by (cases "method_call ext ?rc ''create_security_group_rule'' [] ruleset sa")
      from method_call_shape[OF mc] seg0
      have tr: "trace sb = trace st @ (seg0 @ [ExtCalled ''create_security_group_rule'' [?rc] ruleset x])"
        by simp
      have att: "rule_attempts (seg0 @ [ExtCalled ''create_security_group_rule'' [?rc] ruleset x]) = [x]"
        using seg0 by simp
      show ?thesis
      proof (cases x)
        case (Inl e)
        with assms G g req mc have "r = Inl e" "st1 = sb"
          by (simp_all add: create_security_group_rule_def Let_def bind_res_def lift_def)
        with tr att Inl show ?thesis by blast
      next
        case x: (Inr v)
        from assms G g req mc x
        have "bind_res (lift (bind_sum (subscript v ''security_group_rule'')
                     (construct ''DeletableSecurityGroupRule'' [(''client'', ?rc)]))) (\<lambda>sg_rule.
           bind_res (lift (bind_sum (getattr sg ''tenant_id'') (\<lambda>a.
                           bind_sum (getattr sg_rule ''tenant_id'') (\<lambda>b. assertEqual a b [])))) (\<lambda>_.
           bind_res (lift (bind_sum (getattr sg ''id'') (\<lambda>a.
                           bind_sum (getattr sg_rule ''security_group_id'') (\<lambda>b. assertEqual a b [])))) (\<lambda>_.
           ret sg_rule))) sb = (r, st1)"
          by (simp add: create_security_group_rule_def Let_def bind_res_def lift_def)
        from rule_validation[OF this]
        have "st1 = sb" "(\<exists>ob. r = Inr ob) \<or> (\<exists>e. r = Inl e \<and> \<not> is_conflict e)" by simp_all
        with tr att x show ?thesis by blast
      qed
    qed
  qed
qed

lemma duplicate_is_conflict: "duplicate (Inl e) \<Longrightarrow> is_conflict e"
  by (cases e) simp_all

lemma created_or_duplicate_simps:
  "created_or_duplicate (Inr v)"
  "created_or_duplicate (Inl (Conflict m)) = sublist ''Security group rule already exists'' m"
  by (simp_all add: created_or_duplicate_def)

text \<open>
  The loop over the requests, by induction on the requests that are left: it goes on
  after a rule that was created and after the conflict of a rule that exists, and it
  stops with the conflict of any other creation.
\<close>

lemma rule_loop_shape:
  "rule_loop conf ext rc secgroup sgc reqs rules st = (res, st') \<Longrightarrow>
     cleanups st' = cleanups st \<and> cleanup_waits st' = cleanup_waits st \<and>
     (\<exists>new. trace st' = trace st @ new \<and>
        length (rule_attempts new) \<le> length reqs \<and>
        list_all created_or_duplicate (butlast (rule_attempts new)) \<and>
        (\<forall>rs. res = Inr rs \<longrightarrow>
           list_all created_or_duplicate (rule_attempts new) \<and>
           length rs = length rules + length (filter created (rule_attempts new)) \<and>
           (secgroup \<noteq> VNone \<longrightarrow> length (rule_attempts new) = length reqs)) \<and>
        (\<forall>m. rule_attempts new \<noteq> [] \<longrightarrow> last (rule_attempts new) = Inl (Conflict m) \<longrightarrow>
           \<not> sublist ''Security group rule already exists'' m \<longrightarrow> res = Inl (Conflict m)) \<and>
        (\<forall>e. res = Inl e \<longrightarrow> \<not> duplicate (Inl e)))"
proof (induction reqs arbitrary: rules st)
  case Nil
  then show ?case by auto
next
  case (Cons rq rest)
  obtain ruleset r_direction where rq: "rq = (ruleset, r_direction)" by (cases rq)
  let ?F = "create_security_group_rule conf ext secgroup rc VNone sgc ruleset"
  obtain r st1 where F: "?F st = (r, st1)" by (cases "?F st")
  have reg1: "cleanups st1 = cleanups st" "cleanup_waits st1 = cleanup_waits st"
    using keeps_create_security_group_rule[of conf ext secgroup rc VNone sgc ruleset,
        unfolded keeps_registry_def, rule_format, of st] F
    by simp_all
  from create_security_group_rule_shape[OF F] obtain seg where
    seg: "trace st1 = trace st @ seg" and
    sh: "(rule_attempts seg = [] \<and> (\<exists>e. r = Inl e \<and> (secgroup \<noteq> VNone \<longrightarrow> \<not> is_conflict e))) \<or>
         (\<exists>e. rule_attempts seg = [Inl e] \<and> r = Inl e) \<or>
         (\<exists>v. rule_attempts seg = [Inr v] \<and>
              ((\<exists>ob. r = Inr ob) \<or> (\<exists>e. r = Inl e \<and> \<not> is_conflict e)))"
    by blast
  have len1: "length (rule_attempts seg) \<le> 1" using sh by auto
  text \<open>The ways in which the iteration ends the loop or goes on.\<close>
  consider
      (stop) e where "r = Inl e" "\<not> duplicate r" "res = Inl e" "st' = st1"
    | (skip) m where "r = Inl (Conflict m)" "sublist ''Security group rule already exists'' m"
        "rule_loop conf ext rc secgroup sgc rest rules st1 = (res, st')"
    | (bad) ob e where "r = Inr ob" "res = Inl e" "st' = st1" "\<not> is_conflict e"
    | (app) ob where "r = Inr ob"
        "rule_loop conf ext rc secgroup sgc rest (rules @ [ob]) st1 = (res, st')"
  proof (cases r)
    case (Inl e)
    show ?thesis
    proof (cases e)
      case (Conflict m)
      show ?thesis
      proof (cases "sublist ''Security group rule already exists'' m")
        case True
        with Cons.prems rq F Inl Conflict show ?thesis by (intro skip[of m]) simp_all
      next
        case False
        with Cons.prems rq F Inl Conflict show ?thesis by (intro stop[of e]) simp_all
      qed
    qed (use Cons.prems rq F Inl in \<open>(intro stop[of e]; simp)+\<close>)
  next
    case (Inr ob)
    show ?thesis
    proof (cases "bind_sum (getattr ob ''direction'') (\<lambda>d. assertEqual (VStr r_direction) d [])")
      case (Inl e)
      then have "\<not> is_conflict e"
        by (auto simp: bind_sum_def split: sum.splits
            dest: getattr_not_conflict assertEqual_not_conflict)
      with Cons.prems rq F Inr Inl show ?thesis by (intro bad[of ob e]) simp_all
    next
      case b: (Inr u)
      with Cons.prems rq F Inr show ?thesis by (intro app[of ob]) simp_all
    qed
  qed
  then show ?case
  proof cases
    case (stop e)
    text \<open>The attempt, if there was one, is the last; a conflict of it is the result.\<close>
    have "rule_attempts seg = [] \<or> rule_attempts seg = [Inl e] \<or>
          (\<exists>v. rule_attempts seg = [Inr v] \<and> \<not> is_conflict e)"
      using sh stop(1) by auto
    then show ?thesis
      using stop reg1 seg by (intro conjI exI[of _ seg]) (auto simp: created_or_duplicate_simps)
  next
    case (bad ob e)
    have "\<exists>v. rule_attempts seg = [Inr v]" using sh bad(1) by auto
    moreover have "\<not> duplicate (Inl e)" using bad(4) by (auto dest: duplicate_is_conflict)
    ultimately show ?thesis
      using bad(1-3) reg1 seg by (intro conjI exI[of _ seg]) (auto simp: created_or_duplicate_simps)
  next
    case (skip m)
    from Cons.IH[OF skip(3)] obtain new where
      new: "trace st' = trace st1 @ new" "length (rule_attempts new) \<le> length rest"
        "list_all created_or_duplicate (butlast (rule_attempts new))"
        "\<forall>rs. res = Inr rs \<longrightarrow>
           list_all created_or_duplicate (rule_attempts new) \<and>
           length rs = length rules + length (filter created (rule_attempts new)) \<and>
           (secgroup \<noteq> VNone \<longrightarrow> length (rule_attempts new) = length rest)"
        "\<forall>m. rule_attempts new \<noteq> [] \<longrightarrow> last (rule_attempts new) = Inl (Conflict m) \<longrightarrow>
           \<not> sublist ''Security group rule already exists'' m \<longrightarrow> res = Inl (Conflict m)"
        "\<forall>e. res = Inl e \<longrightarrow> \<not> duplicate (Inl e)"
      and reg: "cleanups st' = cleanups st1" "cleanup_waits st' = cleanup_waits st1"
      by blast
    have hd: "(rule_attempts seg = [] \<and> secgroup = VNone) \<or> rule_attempts seg = [r]"
      using sh skip(1) by auto
    have dup: "duplicate r" "\<not> created r" using skip(1,2) by simp_all
    show ?thesis
      using hd
    proof
      assume a: "rule_attempts seg = [] \<and> secgroup = VNone"
      show ?thesis
        using new reg reg1 seg a
        by (intro conjI exI[of _ "seg @ new"]) (auto simp: created_or_duplicate_simps)
    next
      assume a: "rule_attempts seg = [r]"
      show ?thesis
        using new reg reg1 seg a dup skip(2)
        by (intro conjI exI[of _ "seg @ new"])
           (auto simp: created_or_duplicate_simps skip(1) butlast_append)
    qed
  next
    case (app ob)
    from Cons.IH[OF app(2)] obtain new where
      new: "trace st' = trace st1 @ new" "length (rule_attempts new) \<le> length rest"
        "list_all created_or_duplicate (butlast (rule_attempts new))"
        "\<forall>rs. res = Inr rs \<longrightarrow>
           list_all created_or_duplicate (rule_attempts new) \<and>
           length rs = length (rules @ [ob]) + length (filter created (rule_attempts new)) \<and>
           (secgroup \<noteq> VNone \<longrightarrow> length (rule_attempts new) = length rest)"
        "\<forall>m. rule_attempts new \<noteq> [] \<longrightarrow> last (rule_attempts new) = Inl (Conflict m) \<longrightarrow>
           \<not> sublist ''Security group rule already exists'' m \<longrightarrow> res = Inl (Conflict m)"
        "\<forall>e. res = Inl e \<longrightarrow> \<not> duplicate (Inl e)"
      and reg: "cleanups st' = cleanups st1" "cleanup_waits st' = cleanup_waits st1"
      by blast
    obtain v where a: "rule_attempts seg = [Inr v]" using sh app(1) by auto
    show ?thesis
      using new reg reg1 seg a
      by (intro conjI exI[of _ "seg @ new"]) (auto simp: created_or_duplicate_simps butlast_append)
  qed
qed

lemma since_extends: "trace st' = trace st @ new \<Longrightarrow> since st st' = new"
  by (simp add: since_def)

lemma length_rule_requests: "length rule_requests = 6"
  by (simp add: rule_requests_def rulesets_def)

text \<open>
  C6. While the loginable rules are created, the conflict of a creation whose message
  contains "Security group rule already exists" is passed over and the loop goes on
  with the requests that are left: at most six creations are tried, every one before the
  last was a rule created or such a conflict, and the factory never raises such a
  conflict. When the factory returns for a given security group, all six creations were
  tried, each one created a rule or was passed over, and the rules returned are as many
  as the rules created. When the last creation tried raised a conflict with any other
  message, the factory raises that conflict.
\<close>

theorem existing_rule_conflict_is_skipped:
  "let X = create_loginable_secgroup_rule conf ext rc secgroup sgc st;
       tried = rule_attempts (since st (snd X))
   in length tried \<le> 6 \<and>
      list_all created_or_duplicate (butlast tried) \<and>
      (\<forall>e. fst X = Inl e \<longrightarrow> \<not> duplicate (Inl e)) \<and>
      (\<forall>rules. fst X = Inr rules \<longrightarrow>
         list_all created_or_duplicate tried \<and>
         length rules = length (filter created tried) \<and>
         (secgroup \<noteq> VNone \<longrightarrow> length tried = 6)) \<and>
      (\<forall>m. tried \<noteq> [] \<longrightarrow> last tried = Inl (Conflict m) \<longrightarrow>
         \<not> sublist ''Security group rule already exists'' m \<longrightarrow> fst X = Inl (Conflict m))"
proof -
  let ?rc = "if rc = VNone then VClient ''security_group_rules_client'' else rc"
  let ?sgc = "if sgc = VNone then VClient ''security_groups_client'' else sgc"
  let ?X = "create_loginable_secgroup_rule conf ext rc secgroup sgc st"
  have X: "rule_loop conf ext ?rc secgroup ?sgc rule_requests [] st = (fst ?X, snd ?X)"
    by (simp add: create_loginable_secgroup_rule_def Let_def)
  from rule_loop_shape[OF X] obtain new where
    new: "trace (snd ?X) = trace st @ new" "length (rule_attempts new) \<le> length rule_requests"
      "list_all created_or_duplicate (butlast (rule_attempts new))"
      "\<forall>rs. fst ?X = Inr rs \<longrightarrow>
         list_all created_or_duplicate (rule_attempts new) \<and>
         length rs = length ([] :: pyval list) + length (filter created (rule_attempts new)) \<and>
         (secgroup \<noteq> VNone \<longrightarrow> length (rule_attempts new) = length rule_requests)"
      "\<forall>m. rule_attempts new \<noteq> [] \<longrightarrow> last (rule_attempts new) = Inl (Conflict m) \<longrightarrow>
         \<not> sublist ''Security group rule already exists'' m \<longrightarrow> fst ?X = Inl (Conflict m)"
      "\<forall>e. fst ?X = Inl e \<longrightarrow> \<not> duplicate (Inl e)"
    by blast
  have s: "since st (snd ?X) = new" using new(1) by (rule since_extends)
  show ?thesis
    unfolding Let_def s using new(2-6) by (simp add: length_rule_requests)
qed

theorem existing_rule_conflict_is_skipped_witness:
  "secgroup1 \<noteq> VNone \<and>
   (\<exists>rules. fst (create_loginable_secgroup_rule conf0 cloud VNone secgroup1 VNone three_in_use) = Inr rules \<and>
      length rules = 4) \<and>
   map duplicate (rule_attempts (since three_in_use
      (snd (create_loginable_secgroup_rule conf0 cloud VNone secgroup1 VNone three_in_use)))) =
     [False, False, False, False, True, True] \<and>
   length (filter created (rule_attempts (since three_in_use
      (snd (create_loginable_secgroup_rule conf0 cloud VNone secgroup1 VNone three_in_use))))) = 4 \<and>
   rule_attempts (since (setUp fresh)
      (snd (create_loginable_secgroup_rule conf0 crowded VNone secgroup1 VNone (setUp fresh)))) =
     [Inl (Conflict ''Quota exceeded for resources'')] \<and>
   fst (create_loginable_secgroup_rule conf0 crowded VNone secgroup1 VNone (setUp fresh)) =
     Inl (Conflict ''Quota exceeded for resources'')"
proof -
  let ?X = "create_loginable_secgroup_rule conf0 cloud VNone secgroup1 VNone three_in_use"
  let ?Y = "create_loginable_secgroup_rule conf0 crowded VNone secgroup1 VNone (setUp fresh)"
  note defs = create_loginable_secgroup_rule_def create_security_group_rule_def rule_requests_def
    rulesets_def conf0_def cloud_def crowded_def secgroup1_def three_in_use_def start_def fresh_def
    setUp_def addCleanup_def bind_res_def method_call_def client_call_def lift_def ret_def
    bind_sum_def assertEqual_def since_def Let_def sublist_code
  have g: "secgroup1 \<noteq> VNone" by (simp add: secgroup1_def)
  have s: "fst ?X = Inr
     [VObj ''DeletableSecurityGroupRule''
        [(''client'', VClient ''security_group_rules_client''),
         (''id'', VStr ''rule''), (''security_group_id'', VStr ''sg-1''),
         (''tenant_id'', VStr ''tenant-1''), (''protocol'', VStr ''tcp''),
         (''port_range_min'', VInt 22), (''port_range_max'', VInt 22),
         (''direction'', VStr ''ingress'')],
      VObj ''DeletableSecurityGroupRule''
        [(''client'', VClient ''security_group_rules_client''),
         (''id'', VStr ''rule''), (''security_group_id'', VStr ''sg-1''),
         (''tenant_id'', VStr ''tenant-1''), (''protocol'', VStr ''tcp''),
         (''port_range_min'', VInt 22), (''port_range_max'', VInt 22),
         (''direction'', VStr ''egress'')],
      VObj ''DeletableSecurityGroupRule''
        [(''client'', VClient ''security_group_rules_client''),
         (''id'', VStr ''rule''), (''security_group_id'', VStr ''sg-1''),
         (''tenant_id'', VStr ''tenant-1''), (''protocol'', VStr ''icmp''),
         (''direction'', VStr ''ingress'')],
      VObj ''DeletableSecurityGroupRule''
        [(''client'', VClient ''security_group_rules_client''),
         (''id'', VStr ''rule''), (''security_group_id'', VStr ''sg-1''),
         (''tenant_id'', VStr ''tenant-1''), (''protocol'', VStr ''icmp''),
         (''direction'', VStr ''egress'')]]"
    by (simp add: defs)
  have d: "map duplicate (rule_attempts (since three_in_use (snd ?X))) =
     [False, False, False, False, True, True]"
    by (simp add: defs)
  have y: "rule_attempts (since (setUp fresh) (snd ?Y)) = [Inl (Conflict ''Quota exceeded for resources'')]"
    by (simp add: defs)
  have q: "\<not> sublist ''Security group rule already exists'' ''Quota exceeded for resources''"
    by (simp add: sublist_code)
  note T = existing_rule_conflict_is_skipped[unfolded Let_def]
  from T[where conf=conf0 and ext=cloud and rc=VNone and secgroup=secgroup1 and sgc=VNone
        and st=three_in_use,
      THEN conjunct2, THEN conjunct2, THEN conjunct2, THEN conjunct1, rule_format, OF s]
  have a: "length (filter created (rule_attempts (since three_in_use (snd ?X)))) = 4"
    by simp
  from T[where conf=conf0 and ext=crowded and rc=VNone and secgroup=secgroup1 and sgc=VNone
        and st="setUp fresh",
      THEN conjunct2, THEN conjunct2, THEN conjunct2, THEN conjunct2, rule_format,
      of "''Quota exceeded for resources''"] y q
  have b: "fst ?Y = Inl (Conflict ''Quota exceeded for resources'')"
    by simp
  from g s d a y b show ?thesis by simp
qed

section \<open>Polling\<close>

text \<open>
  The loop of \<^verbatim>\<open>call_until_true\<close> ends when time goes on: by induction on the time that is
  left until the deadline. What it returns says how it ended.
\<close>

lemma poll_loop_total:
  assumes tick: "ticking clock sleep"
    and st: "\<forall>s. clock (world s) \<le> clock (world (snd (func s)))"
    and pos: "0 < sleep_for"
  shows "\<exists>r st'. poll_loop clock sleep func timeout sleep_for st = Some (r, st') \<and>
           (r = Inr True \<longrightarrow> (\<exists>s. func s = (Inr True, st') \<and> clock (world s) < timeout)) \<and>
           (r = Inr False \<longrightarrow> timeout \<le> clock (world st')) \<and>
           (\<forall>e. r = Inl e \<longrightarrow> (\<exists>s. func s = (Inl e, st') \<and> clock (world s) < timeout))"
proof (induction "nat (timeout - clock (world st))" arbitrary: st rule: less_induct)
  case less
  show ?case
  proof (cases "clock (world st) < timeout")
    case False
    then have "poll_loop clock sleep func timeout sleep_for st = Some (Inr False, st)"
      by (subst poll_loop.simps) simp
    with False show ?thesis by simp
  next
    case True
    obtain r st1 where f: "func st = (r, st1)" by (cases "func st")
    show ?thesis
    proof (cases "r = Inr False")
      case False
      with True f have p: "poll_loop clock sleep func timeout sleep_for st = Some (r, st1)"
        by (subst poll_loop.simps) simp
      have "r = Inr True \<or> (\<exists>e. r = Inl e)" using False by (cases r) auto
      then show ?thesis using p f True False by auto
    next
      case r: True
      let ?st2 = "st1\<lparr>world := sleep sleep_for (world st1)\<rparr>"
      from True f r have p: "poll_loop clock sleep func timeout sleep_for st =
          poll_loop clock sleep func timeout sleep_for ?st2"
        by (subst poll_loop.simps) simp
      have "clock (world st) \<le> clock (world st1)" using st[rule_format, of st] f by simp
      moreover have "clock (world st1) + sleep_for \<le> clock (world ?st2)"
        using tick by (simp add: ticking_def)
      ultimately have "clock (world st) < clock (world ?st2)" using pos by linarith
      with True have "nat (timeout - clock (world ?st2)) < nat (timeout - clock (world st))"
        by linarith
      from less[OF this] show ?thesis unfolding p .
    qed
  qed
qed

text \<open>
  The run of the loop: some number of evaluations that began before the deadline and
  answered false, and then either an evaluation that began before the deadline and
  answered otherwise, whose answer is the result, or the deadline, and the result false.
\<close>

lemma poll_loop_run:
  assumes tick: "ticking clock sleep"
    and st: "\<forall>s. clock (world s) \<le> clock (world (snd (func s)))"
    and pos: "0 < sleep_for"
  shows "\<exists>n. polled clock sleep func timeout sleep_for n st \<and>
           (clock (world (nth_poll sleep func sleep_for n st)) < timeout \<longrightarrow>
              fst (func (nth_poll sleep func sleep_for n st)) \<noteq> Inr False) \<and>
           poll_loop clock sleep func timeout sleep_for st =
             Some (poll_result clock sleep func timeout sleep_for n st)"
proof (induction "nat (timeout - clock (world st))" arbitrary: st rule: less_induct)
  case less
  show ?case
  proof (cases "clock (world st) < timeout")
    case False
    then have "poll_loop clock sleep func timeout sleep_for st = Some (Inr False, st)"
      by (subst poll_loop.simps) simp
    with False show ?thesis
      by (intro exI[of _ 0]) (simp add: polled_def poll_result_def)
  next
    case True
    obtain r st1 where f: "func st = (r, st1)" by (cases "func st")
    show ?thesis
    proof (cases "r = Inr False")
      case False
      with True f have "poll_loop clock sleep func timeout sleep_for st = Some (r, st1)"
        by (subst poll_loop.simps) simp
      with True f False show ?thesis
        by (intro exI[of _ 0]) (simp add: polled_def poll_result_def)
    next
      case r: True
      let ?st2 = "poll_step sleep func sleep_for st"
      have st2: "?st2 = st1\<lparr>world := sleep sleep_for (world st1)\<rparr>"
        using f by (simp add: poll_step_def)
      from True f r have p: "poll_loop clock sleep func timeout sleep_for st =
          poll_loop clock sleep func timeout sleep_for ?st2"
        unfolding st2 by (subst poll_loop.simps) simp
      have "clock (world st) \<le> clock (world st1)" using st[rule_format, of st] f by simp
      moreover have "clock (world st1) + sleep_for \<le> clock (world ?st2)"
        unfolding st2 using tick by (simp add: ticking_def)
      ultimately have "clock (world st) < clock (world ?st2)" using pos by linarith
      with True have "nat (timeout - clock (world ?st2)) < nat (timeout - clock (world st))"
        by linarith
      from less[OF this] obtain n where
        IH: "polled clock sleep func timeout sleep_for n ?st2"
            "clock (world (nth_poll sleep func sleep_for n ?st2)) < timeout \<longrightarrow>
               fst (func (nth_poll sleep func sleep_for n ?st2)) \<noteq> Inr False"
            "poll_loop clock sleep func timeout sleep_for ?st2 =
               Some (poll_result clock sleep func timeout sleep_for n ?st2)"
        by blast
      have a: "polled clock sleep func timeout sleep_for (Suc n) st"
        unfolding polled_def
      proof (intro allI impI)
        fix k assume k: "k < Suc n"
        show "clock (world (nth_poll sleep func sleep_for k st)) < timeout \<and>
              fst (func (nth_poll sleep func sleep_for k st)) = Inr False"
        proof (cases k)
          case 0
          with True f r show ?thesis by simp
        next
          case (Suc j)
          with k have "j < n" by simp
          with IH(1) Suc show ?thesis by (simp add: polled_def)
        qed
      qed
      have b: "poll_result clock sleep func timeout sleep_for (Suc n) st =
               poll_result clock sleep func timeout sleep_for n ?st2"
        by (simp add: poll_result_def)
      show ?thesis
        apply (rule exI[of _ "Suc n"])
        using a b IH(2,3) p by simp
    qed
  qed
qed

lemma client_call_steady:
  "steady clock ext \<Longrightarrow> clock (world st) \<le> clock (world (snd (client_call ext n a k st)))"
proof -
  assume "steady clock ext"
  then have "clock (world st) \<le> clock (snd (ext n a k (world st)))"
    unfolding steady_def by blast
  then show ?thesis
    by (cases "ext n a k (world st)") (simp add: client_call_def)
qed

lemma ping_steady:
  assumes "steady clock ext"
  shows "clock (world s) \<le> clock (world (snd (ping ext ip ok s)))"
proof -
  let ?c = "client_call ext ''subprocess.Popen'' [VList [VStr ''ping'', VStr ''-c1'', VStr ''-w1'', ip]] []"
  have "snd (ping ext ip ok s) = snd (?c s)"
    by (cases "?c s") (auto simp: ping_def bind_res_def ret_def split: sum.splits)
  with client_call_steady[OF assms] show ?thesis by simp
qed

lemma check_state_shape:
  "check_state ext node_id attr targets s = (r, s') \<Longrightarrow>
     (truthy node_id \<and>
      (\<exists>x. client_call ext ''show_node'' [VClient ''baremetal_client'', node_id] [] s = (x, s') \<and>
           ((\<exists>e. x = Inl e \<and> r = Inl e) \<or>
            (\<exists>v. x = Inr v \<and> r = bind_sum (dict_get v attr VNone) (\<lambda>v. Inr (v \<in> set targets)))))) \<or>
     (\<not> truthy node_id \<and> s' = s \<and> r = Inl (AttributeError ''get''))"
  by (cases "client_call ext ''show_node'' [VClient ''baremetal_client'', node_id] [] s")
     (auto simp: check_state_def get_node_def bind_res_def lift_def ret_def method_call_def bind_sum_def
       split: sum.splits if_splits)

lemma check_state_steady:
  assumes "steady clock ext"
  shows "clock (world s) \<le> clock (world (snd (check_state ext node_id attr targets s)))"
proof -
  obtain r s' where c: "check_state ext node_id attr targets s = (r, s')"
    by (cases "check_state ext node_id attr targets s")
  from check_state_shape[OF c]
    client_call_steady[OF assms, of s "''show_node''" "[VClient ''baremetal_client'', node_id]" "[]"]
  show ?thesis unfolding c by auto
qed

lemma dict_get_no_timeout: "dict_get v k d = Inl e \<Longrightarrow> e = AttributeError ''get''"
  by (cases v) (auto split: option.splits)

lemma check_state_no_timeout:
  assumes "raises_no_timeout ext" "check_state ext node_id attr targets s = (Inl e, s')"
  shows "e \<noteq> TimeoutException m"
proof -
  have x: "fst (client_call ext n a k s) \<noteq> Inl (TimeoutException m)" for n a k
  proof -
    have "fst (ext n a k (world s)) \<noteq> Inl (TimeoutException m)"
      using assms(1) unfolding raises_no_timeout_def by blast
    then show ?thesis by (cases "ext n a k (world s)") (simp add: client_call_def)
  qed
  from check_state_shape[OF assms(2)] show ?thesis
  proof (elim disjE conjE exE)
    fix x v assume "client_call ext ''show_node'' [VClient ''baremetal_client'', node_id] [] s = (x, s')"
      "x = Inr v" "Inl e = bind_sum (dict_get v attr VNone) (\<lambda>v. Inr (v \<in> set targets))"
    then show ?thesis
      by (cases "dict_get v attr VNone") (auto simp: bind_sum_def dest: dict_get_no_timeout)
  next
    fix y e' assume "client_call ext ''show_node'' [VClient ''baremetal_client'', node_id] [] s = (y, s')"
      "y = Inl e'" "Inl e = (Inl e' :: exn + bool)"
    with x[of "''show_node''" "[VClient ''baremetal_client'', node_id]" "[]"] show ?thesis by auto
  qed auto
qed

lemma ping_ip_address_polls:
  "ping_ip_address conf clock sleep ext ip ok pt st =
     call_until_true clock sleep (ping ext ip ok) (ping_timeout_of conf pt) 1 st"
  by (simp add: ping_ip_address_def ping_timeout_of_def Let_def)

lemma node_state_timeout_polls:
  "node_state_timeout clock sleep ext node_id attr targets timeout interval st =
     (case call_until_true clock sleep (check_state ext node_id attr (states_of targets))
             timeout interval st of
        None \<Rightarrow> None
      | Some (Inl e, st1) \<Rightarrow> Some (Inl e, st1)
      | Some (Inr b, st1) \<Rightarrow>
          if \<not> b then Some (Inl (TimeoutException ''Timed out waiting for node to reach state(s)''), st1)
          else Some (Inr (), st1))"
  by (simp add: node_state_timeout_def states_of_def Let_def)


text \<open>
  C7. When time goes on (a sleep moves the clock on by its argument at least, the backend
  never turns the clock back, the interval is positive), both helpers return, and what
  they return is the result of a run of the polling: some evaluations of the predicate
  that began before the deadline and answered false, each followed by a sleep, and then
  either an evaluation that began before the deadline and answered otherwise, or the
  deadline. \<^verbatim>\<open>ping_ip_address\<close> returns the boolean of \<^verbatim>\<open>call_until_true\<close>: true right after a
  ping that began before the deadline and answered true, false once the deadline has
  passed, and it raises nothing but what the ping itself raised. \<^verbatim>\<open>_node_state_timeout\<close>
  returns when the polling found the target state before the deadline, raises
  \<^verbatim>\<open>TimeoutException\<close> when the polling returned false with the deadline passed, and passes
  on what the check itself raised; on a backend that raises no timeout of its own, a
  \<^verbatim>\<open>TimeoutException\<close> means that the polling returned false.
\<close>

theorem polling_returns_or_times_out:
  assumes tick: "ticking clock sleep" and steady: "steady clock ext" and pos: "0 < interval"
  shows "(\<exists>r st' n.
            ping_ip_address conf clock sleep ext ip ok pt st = Some (r, st') \<and>
            polled clock sleep (ping ext ip ok) (clock (world st) + ping_timeout_of conf pt) 1 n st \<and>
            (clock (world (nth_poll sleep (ping ext ip ok) 1 n st)) <
               clock (world st) + ping_timeout_of conf pt \<longrightarrow>
             fst (ping ext ip ok (nth_poll sleep (ping ext ip ok) 1 n st)) \<noteq> Inr False) \<and>
            (r, st') = poll_result clock sleep (ping ext ip ok)
                         (clock (world st) + ping_timeout_of conf pt) 1 n st \<and>
            (r = Inr True \<longrightarrow>
               (\<exists>s. ping ext ip ok s = (Inr True, st') \<and>
                    clock (world s) < clock (world st) + ping_timeout_of conf pt)) \<and>
            (r = Inr False \<longrightarrow> clock (world st) + ping_timeout_of conf pt \<le> clock (world st')) \<and>
            (\<forall>e. r = Inl e \<longrightarrow> (\<exists>s. ping ext ip ok s = (Inl e, st')))) \<and>
         (\<exists>r p st' n.
            node_state_timeout clock sleep ext node_id attr targets timeout interval st = Some (r, st') \<and>
            call_until_true clock sleep (check_state ext node_id attr (states_of targets))
              timeout interval st = Some (p, st') \<and>
            polled clock sleep (check_state ext node_id attr (states_of targets))
              (clock (world st) + timeout) interval n st \<and>
            (clock (world (nth_poll sleep (check_state ext node_id attr (states_of targets)) interval n st)) <
               clock (world st) + timeout \<longrightarrow>
             fst (check_state ext node_id attr (states_of targets)
                    (nth_poll sleep (check_state ext node_id attr (states_of targets)) interval n st)) \<noteq>
               Inr False) \<and>
            (p, st') = poll_result clock sleep (check_state ext node_id attr (states_of targets))
                         (clock (world st) + timeout) interval n st \<and>
            (p = Inr False \<longrightarrow>
               r = Inl (TimeoutException ''Timed out waiting for node to reach state(s)'') \<and>
               clock (world st) + timeout \<le> clock (world st')) \<and>
            (p = Inr True \<longrightarrow>
               r = Inr () \<and>
               (\<exists>s. check_state ext node_id attr (states_of targets) s = (Inr True, st') \<and>
                    clock (world s) < clock (world st) + timeout)) \<and>
            (\<forall>e. p = Inl e \<longrightarrow>
               r = Inl e \<and> (\<exists>s. check_state ext node_id attr (states_of targets) s = (Inl e, st'))) \<and>
            (raises_no_timeout ext \<longrightarrow> (\<forall>m. r = Inl (TimeoutException m) \<longrightarrow> p = Inr False)))"
proof (rule conjI)
  let ?png = "ping ext ip ok"
  let ?D = "clock (world st) + ping_timeout_of conf pt"
  have s: "\<forall>s. clock (world s) \<le> clock (world (snd (?png s)))"
    using ping_steady[OF steady] by blast
  from poll_loop_total[OF tick s, of 1 ?D st]
  obtain r st' where
    P: "poll_loop clock sleep ?png ?D 1 st = Some (r, st')" and
    t: "r = Inr True \<longrightarrow> (\<exists>s. ?png s = (Inr True, st') \<and> clock (world s) < ?D)" and
    f: "r = Inr False \<longrightarrow> ?D \<le> clock (world st')" and
    e: "\<forall>e. r = Inl e \<longrightarrow> (\<exists>s. ?png s = (Inl e, st') \<and> clock (world s) < ?D)"
    by auto
  from poll_loop_run[OF tick s, of 1 ?D st]
  obtain n where
    run: "polled clock sleep ?png ?D 1 n st"
         "clock (world (nth_poll sleep ?png 1 n st)) < ?D \<longrightarrow>
            fst (?png (nth_poll sleep ?png 1 n st)) \<noteq> Inr False"
         "poll_loop clock sleep ?png ?D 1 st = Some (poll_result clock sleep ?png ?D 1 n st)"
    by auto
  from P run(3) have res: "(r, st') = poll_result clock sleep ?png ?D 1 n st" by simp
  have png: "ping_ip_address conf clock sleep ext ip ok pt st = Some (r, st')"
    unfolding ping_ip_address_polls call_until_true_def using P .
  have e': "\<forall>e. r = Inl e \<longrightarrow> (\<exists>s. ?png s = (Inl e, st'))" using e by blast
  show "\<exists>r st' n.
            ping_ip_address conf clock sleep ext ip ok pt st = Some (r, st') \<and>
            polled clock sleep ?png ?D 1 n st \<and>
            (clock (world (nth_poll sleep ?png 1 n st)) < ?D \<longrightarrow>
             fst (?png (nth_poll sleep ?png 1 n st)) \<noteq> Inr False) \<and>
            (r, st') = poll_result clock sleep ?png ?D 1 n st \<and>
            (r = Inr True \<longrightarrow> (\<exists>s. ?png s = (Inr True, st') \<and> clock (world s) < ?D)) \<and>
            (r = Inr False \<longrightarrow> ?D \<le> clock (world st')) \<and>
            (\<forall>e. r = Inl e \<longrightarrow> (\<exists>s. ?png s = (Inl e, st')))"
    apply (rule exI[of _ r], rule exI[of _ st'], rule exI[of _ n])
    apply (intro conjI)
          apply (rule png)
         apply (rule run(1))
        apply (rule run(2))
       apply (rule res)
      apply (rule t)
     apply (rule f)
    apply (rule e')
    done
next
  let ?chk = "check_state ext node_id attr (states_of targets)"
  let ?N = "node_state_timeout clock sleep ext node_id attr targets timeout interval st"
  let ?D = "clock (world st) + timeout"
  let ?msg = "''Timed out waiting for node to reach state(s)''"
  have s: "\<forall>s. clock (world s) \<le> clock (world (snd (?chk s)))"
    using check_state_steady[OF steady] by blast
  from poll_loop_total[OF tick s pos, of ?D st]
  obtain p st' where
    L: "poll_loop clock sleep ?chk ?D interval st = Some (p, st')" and
    t: "p = Inr True \<longrightarrow> (\<exists>s. ?chk s = (Inr True, st') \<and> clock (world s) < ?D)" and
    f: "p = Inr False \<longrightarrow> ?D \<le> clock (world st')" and
    e: "\<forall>e. p = Inl e \<longrightarrow> (\<exists>s. ?chk s = (Inl e, st') \<and> clock (world s) < ?D)"
    by auto
  have P: "call_until_true clock sleep ?chk timeout interval st = Some (p, st')"
    unfolding call_until_true_def using L .
  from poll_loop_run[OF tick s pos, of ?D st]
  obtain n where
    run: "polled clock sleep ?chk ?D interval n st"
         "clock (world (nth_poll sleep ?chk interval n st)) < ?D \<longrightarrow>
            fst (?chk (nth_poll sleep ?chk interval n st)) \<noteq> Inr False"
         "poll_loop clock sleep ?chk ?D interval st = Some (poll_result clock sleep ?chk ?D interval n st)"
    by auto
  from L run(3) have res: "(p, st') = poll_result clock sleep ?chk ?D interval n st" by simp
  define r where "r = (case p of Inl e \<Rightarrow> Inl e
                       | Inr b \<Rightarrow> if \<not> b then Inl (TimeoutException ?msg) else Inr ())"
  have N: "?N = Some (r, st')"
    unfolding node_state_timeout_polls P r_def by (cases p) auto
  have rf: "p = Inr False \<longrightarrow> r = Inl (TimeoutException ?msg) \<and> ?D \<le> clock (world st')"
    using f by (simp add: r_def)
  have rt: "p = Inr True \<longrightarrow>
      r = Inr () \<and> (\<exists>s. ?chk s = (Inr True, st') \<and> clock (world s) < ?D)"
    using t by (simp add: r_def)
  have re: "\<forall>e. p = Inl e \<longrightarrow> r = Inl e \<and> (\<exists>s. ?chk s = (Inl e, st'))"
    using e by (auto simp: r_def)
  have ex: "raises_no_timeout ext \<longrightarrow> (\<forall>m. r = Inl (TimeoutException m) \<longrightarrow> p = Inr False)"
  proof (intro impI allI)
    fix m assume no: "raises_no_timeout ext" and rm: "r = Inl (TimeoutException m)"
    show "p = Inr False"
    proof (cases p)
      case (Inl e')
      with e obtain s where "?chk s = (Inl e', st')" by blast
      from check_state_no_timeout[OF no this] have "e' \<noteq> TimeoutException m" .
      with rm Inl show ?thesis by (simp add: r_def)
    next
      case (Inr b)
      with rm show ?thesis by (cases b) (simp_all add: r_def)
    qed
  qed
  show "\<exists>r p st' n. ?N = Some (r, st') \<and>
            call_until_true clock sleep ?chk timeout interval st = Some (p, st') \<and>
            polled clock sleep ?chk ?D interval n st \<and>
            (clock (world (nth_poll sleep ?chk interval n st)) < ?D \<longrightarrow>
             fst (?chk (nth_poll sleep ?chk interval n st)) \<noteq> Inr False) \<and>
            (p, st') = poll_result clock sleep ?chk ?D interval n st \<and>
            (p = Inr False \<longrightarrow> r = Inl (TimeoutException ?msg) \<and> ?D \<le> clock (world st')) \<and>
            (p = Inr True \<longrightarrow> r = Inr () \<and>
               (\<exists>s. ?chk s = (Inr True, st') \<and> clock (world s) < ?D)) \<and>
            (\<forall>e. p = Inl e \<longrightarrow> r = Inl e \<and> (\<exists>s. ?chk s = (Inl e, st'))) \<and>
            (raises_no_timeout ext \<longrightarrow> (\<forall>m. r = Inl (TimeoutException m) \<longrightarrow> p = Inr False))"
    apply (rule exI[of _ r], rule exI[of _ p], rule exI[of _ st'], rule exI[of _ n])
    apply (intro conjI)
            apply (rule N)
           apply (rule P)
          apply (rule run(1))
         apply (rule run(2))
        apply (rule res)
       apply (rule rf)
      apply (rule rt)
     apply (rule re)
    apply (rule ex)
    done
qed

theorem polling_returns_or_times_out_witness:
  "ticking seconds sleep_seconds \<and> steady seconds timed \<and> raises_no_timeout timed \<and>
   fst (ping timed (VStr ''10.0.0.1'') True midnight) = Inr True \<and>
   ping_ip_address conf0 seconds sleep_seconds timed (VStr ''10.0.0.1'') True None midnight =
     Some (ping timed (VStr ''10.0.0.1'') True midnight) \<and>
   (\<exists>st'. ping_ip_address conf0 seconds sleep_seconds timed (VStr ''10.0.0.9'') True None midnight =
            Some (Inr False, st') \<and>
          seconds (world midnight) + ping_timeout_of conf0 None \<le> seconds (world st')) \<and>
   (\<exists>st'. node_state_timeout seconds sleep_seconds timed (VStr ''node-1'') ''power_state''
            (VStr ''power on'') 5 1 midnight = Some (Inr (), st') \<and>
          call_until_true seconds sleep_seconds
            (check_state timed (VStr ''node-1'') ''power_state'' (states_of (VStr ''power on'')))
            5 1 midnight = Some (Inr True, st')) \<and>
   (\<exists>st'. node_state_timeout seconds sleep_seconds timed (VStr ''node-1'') ''power_state''
            (VStr ''rebooting'') 3 1 midnight =
            Some (Inl (TimeoutException ''Timed out waiting for node to reach state(s)''), st') \<and>
          call_until_true seconds sleep_seconds
            (check_state timed (VStr ''node-1'') ''power_state'' (states_of (VStr ''rebooting'')))
            3 1 midnight = Some (Inr False, st') \<and>
          seconds (world midnight) + 3 \<le> seconds (world st'))"
proof -
  let ?png = "ping timed (VStr ''10.0.0.1'') True"
  let ?R = "ping_ip_address conf0 seconds sleep_seconds timed (VStr ''10.0.0.1'') True None midnight"
  let ?P = "ping_ip_address conf0 seconds sleep_seconds timed (VStr ''10.0.0.9'') True None midnight"
  let ?N = "\<lambda>target timeout. node_state_timeout seconds sleep_seconds timed (VStr ''node-1'')
              ''power_state'' (VStr target) timeout 1 midnight"
  let ?C = "\<lambda>target timeout. call_until_true seconds sleep_seconds
              (check_state timed (VStr ''node-1'') ''power_state'' (states_of (VStr target)))
              timeout 1 midnight"
  let ?D = "seconds (world midnight) + ping_timeout_of conf0 None"
  let ?msg = "''Timed out waiting for node to reach state(s)''"
  note defs = ping_ip_address_def node_state_timeout_def call_until_true_def poll_loop.simps
    ping_def check_state_def get_node_def method_call_def conf0_def seconds_def sleep_seconds_def
    timed_def midnight_def bind_res_def client_call_def ret_def lift_def bind_sum_def states_of_def
    Let_def
  have tk: "ticking seconds sleep_seconds"
    by (simp add: ticking_def seconds_def sleep_seconds_def)
  have sd: "steady seconds timed"
    by (simp add: steady_def seconds_def timed_def)
  have nt: "raises_no_timeout timed"
    by (simp add: raises_no_timeout_def timed_def)
  have p0: "fst (?png midnight) = Inr True"
    by (simp add: ping_def timed_def midnight_def bind_res_def client_call_def ret_def)
  have d0: "seconds (world midnight) < ?D"
    by (simp add: seconds_def midnight_def ping_timeout_of_def conf0_def)
  have p: "map_option fst ?P = Some (Inr False)"
    by (simp add: defs)
  have on: "map_option fst (?C ''power on'' 5) = Some (Inr True)"
    by (simp add: defs)
  have off: "map_option fst (?C ''rebooting'' 3) = Some (Inr False)"
    by (simp add: defs)
  note T = polling_returns_or_times_out[OF tk sd, where interval=1 and conf=conf0
      and ok=True and pt=None and st=midnight
      and node_id="VStr ''node-1''" and attr="''power_state''"]
  have r: "?R = Some (?png midnight)"
  proof -
    from T[where ip="VStr ''10.0.0.1''" and targets="VStr ''power on''" and timeout=5, THEN conjunct1]
    obtain r st' n where x: "?R = Some (r, st')"
      "polled seconds sleep_seconds ?png ?D 1 n midnight"
      "(r, st') = poll_result seconds sleep_seconds ?png ?D 1 n midnight"
      by auto
    have n: "n = 0"
    proof (rule ccontr)
      assume "n \<noteq> 0"
      then have "0 < n" by simp
      with x(2) have "fst (?png (nth_poll sleep_seconds ?png 1 0 midnight)) = Inr False"
        unfolding polled_def by blast
      with p0 show False by simp
    qed
    have "poll_result seconds sleep_seconds ?png ?D 1 0 midnight = ?png midnight"
      using d0 by (simp add: poll_result_def)
    with x(1,3) n show ?thesis by simp
  qed
  have a: "\<exists>st'. ?P = Some (Inr False, st') \<and> ?D \<le> seconds (world st')"
  proof -
    from T[where ip="VStr ''10.0.0.9''" and targets="VStr ''power on''" and timeout=5, THEN conjunct1]
    obtain r st' where x: "?P = Some (r, st')"
      "r = Inr False \<longrightarrow> ?D \<le> seconds (world st')"
      by auto
    from x(1) p have "r = Inr False" by simp
    with x show ?thesis by blast
  qed
  have b: "\<exists>st'. ?N ''power on'' 5 = Some (Inr (), st') \<and> ?C ''power on'' 5 = Some (Inr True, st')"
  proof -
    from T[where ip="VStr ''10.0.0.9''" and targets="VStr ''power on''" and timeout=5, THEN conjunct2]
    obtain r q st' where x: "?N ''power on'' 5 = Some (r, st')" "?C ''power on'' 5 = Some (q, st')"
      "q = Inr True \<longrightarrow> r = Inr ()"
      by auto
    from x(2) on have "q = Inr True" by simp
    with x show ?thesis by blast
  qed
  have c: "\<exists>st'. ?N ''rebooting'' 3 = Some (Inl (TimeoutException ?msg), st') \<and>
      ?C ''rebooting'' 3 = Some (Inr False, st') \<and> seconds (world midnight) + 3 \<le> seconds (world st')"
  proof -
    from T[where ip="VStr ''10.0.0.9''" and targets="VStr ''rebooting''" and timeout=3, THEN conjunct2]
    obtain r q st' where x: "?N ''rebooting'' 3 = Some (r, st')" "?C ''rebooting'' 3 = Some (q, st')"
      "q = Inr False \<longrightarrow> r = Inl (TimeoutException ?msg) \<and>
         seconds (world midnight) + 3 \<le> seconds (world st')"
      by auto
    from x(2) off have "q = Inr False" by simp
    with x show ?thesis by blast
  qed
  from tk sd nt p0 r a b c show ?thesis by blast
qed

end
